theory Spec2Isabelle
  imports Complex_Main "HOL-Library.Word" "HOL-Library.AList"
    "HOL-Library.Char_ord" "HOL-Library.List_Lexorder" "HOL-Library.Product_Lexorder"
begin

unbundle bit_operations_syntax

section \<open>Conventions of the embedding\<close>

text \<open>
  The development embeds the retrieval and deduplication engine of \<^verbatim>\<open>src/rag_python\<close>.

  \<^item> A Python \<^verbatim>\<open>str\<close> is a \<^typ>\<open>string\<close>: a sequence of characters with code points
    below 256. The hash itself (\<open>stable_hash_units\<close>) is defined on arbitrary sequences of
    code points.
  \<^item> A Python \<^verbatim>\<open>float\<close> is a \<^typ>\<open>real\<close>: rounding is not modelled.
  \<^item> A Python \<^verbatim>\<open>dict\<close> is an association list in insertion order
    (\<^const>\<open>map_of\<close> reads it, \<^const>\<open>AList.update\<close> writes it: an existing key keeps its
    place, a new key goes to the end).
  \<^item> A Python \<^verbatim>\<open>set\<close> of strings is a list; the order in which Python iterates a set
    is not fixed by the language, the model takes the order of first insertion.
  \<^item> An exception is a value \<open>Inl e\<close> of a sum type.
\<close>

datatype error = ValueError | ZeroDivisionError | IndexError | KeyError

section \<open>Text utilities (\<^verbatim>\<open>utils.py\<close>)\<close>

text \<open>
  \<^verbatim>\<open>\s\<close> in a Python 3 pattern over \<^verbatim>\<open>str\<close>, and \<^verbatim>\<open>str.strip()\<close>, use Unicode white space;
  below 256 that is U+0009..U+000D, U+001C..U+0020, U+0085 and U+00A0.
\<close>

definition is_space :: "char \<Rightarrow> bool" where
  "is_space c =
     (let n = (of_char c :: nat)
      in (9 \<le> n \<and> n \<le> 13) \<or> (28 \<le> n \<and> n \<le> 32) \<or> n = 133 \<or> n = 160)"

text \<open>\<^verbatim>\<open>str.lower()\<close> on one character below 256: A..Z and the Latin-1 capitals.\<close>

definition lower_char :: "char \<Rightarrow> char" where
  "lower_char c =
     (let n = (of_char c :: nat)
      in if (65 \<le> n \<and> n \<le> 90) \<or> (192 \<le> n \<and> n \<le> 222 \<and> n \<noteq> 215)
         then char_of (n + 32) else c)"

definition is_digit :: "char \<Rightarrow> bool" where
  "is_digit c = (let n = (of_char c :: nat) in 48 \<le> n \<and> n \<le> 57)"

definition is_az09 :: "char \<Rightarrow> bool" where
  "is_az09 c = (let n = (of_char c :: nat) in (97 \<le> n \<and> n \<le> 122) \<or> (48 \<le> n \<and> n \<le> 57))"

text \<open>
  \<^verbatim>\<open>re.sub(r"\s+", " ", s)\<close>: every maximal run of white space becomes one space. The flag
  says that the previous character belonged to a run that is already replaced.
\<close>

fun collapse_ws :: "bool \<Rightarrow> string \<Rightarrow> string" where
  "collapse_ws in_run [] = []"
| "collapse_ws in_run (c # cs) =
     (if is_space c
      then (if in_run then collapse_ws True cs else CHR '' '' # collapse_ws True cs)
      else c # collapse_ws False cs)"

definition strip :: "string \<Rightarrow> string" where
  "strip s = rev (dropWhile is_space (rev (dropWhile is_space s)))"

definition normalize_text :: "string \<Rightarrow> string" where
  "normalize_text text =
     strip (collapse_ws False
       (map (\<lambda>c. if is_az09 c \<or> is_space c then c else CHR '' '') (map lower_char text)))"

text \<open>\<^verbatim>\<open>s.split(" ")\<close>: cut at every single space; empty pieces are kept.\<close>

fun split_on :: "char \<Rightarrow> string \<Rightarrow> string list" where
  "split_on d [] = [[]]"
| "split_on d (c # cs) =
     (if c = d then [] # split_on d cs
      else (case split_on d cs of [] \<Rightarrow> [[c]] | w # ws \<Rightarrow> (c # w) # ws))"

fun py_join :: "string \<Rightarrow> string list \<Rightarrow> string" where
  "py_join sep [] = []"
| "py_join sep [x] = x"
| "py_join sep (x # y # ys) = x @ sep @ py_join sep (y # ys)"

definition tokenize :: "string \<Rightarrow> string list" where
  "tokenize text =
     (let t = normalize_text text
      in if t = [] then [] else filter (\<lambda>x. x \<noteq> []) (split_on (CHR '' '') t))"

text \<open>
  \<^verbatim>\<open>re.sub(r"\b\d+(\.\d+)?\b", "<num>", normalize_text(text))\<close>. The normalised text holds
  only a..z, 0..9 and single spaces, so the optional group never matches and a match is
  exactly a piece between spaces that consists of digits only.
\<close>

definition normalize_template_text :: "string \<Rightarrow> string" where
  "normalize_template_text text =
     py_join '' ''
       (map (\<lambda>w. if w \<noteq> [] \<and> list_all is_digit w then ''<num>'' else w)
          (split_on (CHR '' '') (normalize_text text)))"

subsection \<open>The stable hash\<close>

definition hexchar :: "nat \<Rightarrow> char" where
  "hexchar d = (''0123456789abcdef'' ! d)"

fun hex_digits :: "nat \<Rightarrow> string" where
  "hex_digits n =
     (if n < 16 then [hexchar n] else hex_digits (n div 16) @ [hexchar (n mod 16)])"

declare hex_digits.simps [simp del]

text \<open>The format \<^verbatim>\<open>{h:08x}\<close> of a non-negative integer: lower-case hexadecimal,
  filled with zeros on the left up to eight characters.\<close>

definition format_08x :: "int \<Rightarrow> string" where
  "format_08x h =
     (let ds = hex_digits (nat h) in replicate (8 - length ds) (CHR ''0'') @ ds)"

text \<open>One round of the loop, on Python's unbounded integers; \<open>c\<close> is \<^verbatim>\<open>ord(ch)\<close>.\<close>

definition hash_step :: "int \<times> int \<Rightarrow> nat \<Rightarrow> int \<times> int" where
  "hash_step h c =
     (case h of (h1, h2) \<Rightarrow>
        (((h1 XOR int c) * 2654435761) AND 0xFFFFFFFF,
         ((h2 XOR int c) * 1597334677) AND 0xFFFFFFFF))"

definition stable_hash_units :: "nat list \<Rightarrow> string" where
  "stable_hash_units text =
     (case foldl hash_step (0xDEADBEEF, 0x41C6CE57) text of (h1, h2) \<Rightarrow>
        let h1' = (((h1 XOR drop_bit 16 h1) * 2246822507)
                    XOR ((h2 XOR drop_bit 13 h2) * 3266489909)) AND 0xFFFFFFFF;
            h2' = (((h2 XOR drop_bit 16 h2) * 2246822507)
                    XOR ((h1' XOR drop_bit 13 h1') * 3266489909)) AND 0xFFFFFFFF
        in format_08x h2' @ format_08x h1')"

definition stable_hash :: "string \<Rightarrow> string" where
  "stable_hash text = stable_hash_units (map of_char text)"

subsection \<open>The reference recipe of the specification\<close>

text \<open>
  The recipe as the specification words it, on two 32-bit accumulators. Its statements are
  assignments executed in order, as those of its loop are: the second finalising statement
  is the first one with the names \<open>h1\<close> and \<open>h2\<close> exchanged, and so reads the \<open>h1\<close> that the
  first one has just produced. \<open>recipe_hex\<close> writes a 32-bit value as its eight hexadecimal
  digits, the most significant first.
\<close>

definition recipe_hex :: "32 word \<Rightarrow> string" where
  "recipe_hex w = map (\<lambda>i. hexchar (unat (drop_bit (4 * i) w AND 15))) [7, 6, 5, 4, 3, 2, 1, 0]"

definition recipe_round :: "32 word \<times> 32 word \<Rightarrow> nat \<Rightarrow> 32 word \<times> 32 word" where
  "recipe_round h c =
     (case h of (h1, h2) \<Rightarrow>
        ((h1 XOR word_of_nat c) * 2654435761, (h2 XOR word_of_nat c) * 1597334677))"

definition recipe_hash :: "nat list \<Rightarrow> string" where
  "recipe_hash units =
     (case foldl recipe_round (0xDEADBEEF, 0x41C6CE57) units of (h1, h2) \<Rightarrow>
        let h1' = ((h1 XOR drop_bit 16 h1) * 2246822507) XOR ((h2 XOR drop_bit 13 h2) * 3266489909);
            h2' = ((h2 XOR drop_bit 16 h2) * 2246822507) XOR ((h1' XOR drop_bit 13 h1') * 3266489909)
        in recipe_hex h2' @ recipe_hex h1')"

subsection \<open>Fingerprints (\<^verbatim>\<open>fingerprint.py\<close>)\<close>

definition build_exact_hash :: "string \<Rightarrow> string list \<Rightarrow> string option \<Rightarrow> string" where
  "build_exact_hash stem options answer =
     stable_hash
       (normalize_text stem @ ''||'' @ py_join ''|'' (map normalize_text options) @ ''||''
          @ normalize_text (case answer of None \<Rightarrow> [] | Some a \<Rightarrow> a))"

definition build_template_hash :: "string \<Rightarrow> string" where
  "build_template_hash stem = stable_hash (normalize_template_text stem)"

section \<open>Python values\<close>

text \<open>
  The values that JSON and the metadata of a question carry. \<open>truthy\<close> is Python's truth
  test (\<^verbatim>\<open>if x\<close>, \<^verbatim>\<open>x or y\<close>), \<open>py_eq\<close> is \<^verbatim>\<open>==\<close> (so \<^verbatim>\<open>!=\<close> is its negation): numbers
  and booleans compare by value (\<^verbatim>\<open>1 == 1.0 == True\<close>), lists element by element, dicts
  as sets of entries.
\<close>

datatype pyval =
    PNone
  | PBool bool
  | PInt int
  | PFloat real
  | PStr string
  | PList "pyval list"
  | PDict "(string \<times> pyval) list"

fun truthy :: "pyval \<Rightarrow> bool" where
  "truthy PNone = False"
| "truthy (PBool b) = b"
| "truthy (PInt i) = (i \<noteq> 0)"
| "truthy (PFloat r) = (r \<noteq> 0)"
| "truthy (PStr s) = (s \<noteq> [])"
| "truthy (PList xs) = (xs \<noteq> [])"
| "truthy (PDict kvs) = (kvs \<noteq> [])"

fun num_of :: "pyval \<Rightarrow> real option" where
  "num_of (PBool b) = Some (if b then 1 else 0)"
| "num_of (PInt i) = Some (real_of_int i)"
| "num_of (PFloat r) = Some r"
| "num_of _ = None"

lemma size_nth_less [termination_simp]:
  "i < length xs \<Longrightarrow> size (xs ! i) < Suc (size_list size xs)"
  by (metis less_Suc_eq_le nth_mem size_list_estimation' order_refl)

fun py_eq :: "pyval \<Rightarrow> pyval \<Rightarrow> bool" where
  "py_eq PNone PNone = True"
| "py_eq (PStr a) (PStr b) = (a = b)"
| "py_eq (PList xs) (PList ys) =
     (length xs = length ys \<and> list_all (\<lambda>i. py_eq (xs ! i) (ys ! i)) [0..<length xs])"
| "py_eq (PDict a) (PDict b) =
     (length a = length b \<and>
      list_all (\<lambda>kv. list_ex (\<lambda>kv'. fst kv' = fst kv \<and> py_eq (snd kv) (snd kv')) b) a)"
| "py_eq x y = (case (num_of x, num_of y) of (Some r, Some s) \<Rightarrow> r = s | _ \<Rightarrow> False)"

text \<open>\<^verbatim>\<open>d.get(k)\<close>: the value under the key, \<^verbatim>\<open>None\<close> when the key is absent.\<close>

definition py_get :: "(string \<times> pyval) list \<Rightarrow> string \<Rightarrow> pyval" where
  "py_get d k = (case map_of d k of None \<Rightarrow> PNone | Some v \<Rightarrow> v)"

text \<open>\<^verbatim>\<open>str(n)\<close> of an integer.\<close>

fun dec_digits :: "nat \<Rightarrow> string" where
  "dec_digits n =
     (if n < 10 then [hexchar n] else dec_digits (n div 10) @ [hexchar (n mod 10)])"

declare dec_digits.simps [simp del]

definition str_int :: "int \<Rightarrow> string" where
  "str_int i = (if i < 0 then CHR ''-'' # dec_digits (nat (- i)) else dec_digits (nat i))"

text \<open>
  \<^verbatim>\<open>str.upper()\<close> on a string below 256: a..z and the Latin-1 small letters; the sharp s
  becomes \<^verbatim>\<open>SS\<close>. The capitals of U+00B5 and U+00FF lie beyond 255; the model leaves these
  two characters as they are (\<open>normalize_text\<close> turns them into a space either way).
\<close>

definition upper_char :: "char \<Rightarrow> string" where
  "upper_char c =
     (let n = (of_char c :: nat)
      in if n = 223 then ''SS''
         else if (97 \<le> n \<and> n \<le> 122) \<or> (224 \<le> n \<and> n \<le> 254 \<and> n \<noteq> 247)
         then [char_of (n - 32)] else [c])"

definition upper :: "string \<Rightarrow> string" where
  "upper s = concat (map upper_char s)"

section \<open>Entities and configuration (\<^verbatim>\<open>types.py\<close>)\<close>

record QuestionImage =
  image_id :: string
  path :: "string option"
  ocr_text :: "string option"
  caption :: "string option"
  image_vector :: "real list option"

text \<open>
  The fingerprints of a document: the engine builds the mapping with exactly the two keys
  \<^verbatim>\<open>exact_hash\<close> and \<^verbatim>\<open>template_hash\<close>, and reads them by name.
\<close>

record Fingerprints =
  exact_hash :: string
  template_hash :: string

record QuestionDocument =
  qid :: string
  stem :: string
  options :: "string list"
  answer :: "string option"
  explanation :: "string option"
  images :: "QuestionImage list"
  tags :: "string list"
  metadata :: "(string \<times> pyval) list"
  fingerprints :: Fingerprints
  source :: "(string \<times> pyval) list option"

record IngestedQuestion =
  question :: QuestionDocument
  status :: string
  matched_qid :: "string option"
  score :: "real option"

text \<open>
  \<^verbatim>\<open>QueryInput\<close>. The fields \<^verbatim>\<open>text\<close> and \<^verbatim>\<open>image_vector\<close> carry the prefix \<open>q_\<close> here.
  Counts are natural numbers.
\<close>

record QueryInput =
  q_text :: "string option"
  q_image_vector :: "real list option"
  question_id :: "string option"
  filters :: "(string \<times> pyval) list"
  top_k :: "nat option"
  top_m :: "nat option"
  top_n :: "nat option"

text \<open>\<^verbatim>\<open>RetrievalResult\<close>; \<^verbatim>\<open>qid\<close>, \<^verbatim>\<open>score\<close> and \<^verbatim>\<open>question\<close> carry the prefix \<open>r_\<close>.\<close>

record RetrievalResult =
  r_qid :: string
  r_score :: real
  bm25_score :: "real option"
  dense_score :: "real option"
  image_score :: "real option"
  rerank_score :: real
  duplicate_class :: string
  reason :: string
  r_question :: QuestionDocument

text \<open>\<^verbatim>\<open>RetrievalResponse\<close> without \<^verbatim>\<open>took_ms\<close>, which is wall-clock time.\<close>

record RetrievalResponse =
  query :: QueryInput
  counts :: "(string \<times> nat) list"
  results :: "RetrievalResult list"

record RAGConfig =
  dense_dim :: nat
  bm25_top_k :: nat
  dense_top_k :: nat
  image_top_k :: nat
  rrf_k :: nat
  sparse_weight :: real
  dense_weight :: real
  image_weight :: real
  rrf_weight :: real
  rerank_top_m :: nat
  final_top_n :: nat
  near_duplicate_threshold :: real
  duplicate_threshold :: real

definition default_config :: RAGConfig where
  "default_config =
     \<lparr>dense_dim = 512, bm25_top_k = 300, dense_top_k = 300, image_top_k = 300, rrf_k = 60,
      sparse_weight = 45 / 100, dense_weight = 45 / 100, image_weight = 10 / 100,
      rrf_weight = 15 / 100, rerank_top_m = 200, final_top_n = 20,
      near_duplicate_threshold = 85 / 100, duplicate_threshold = 95 / 100\<rparr>"

section \<open>The deterministic hash embedder (\<^verbatim>\<open>embedding.py\<close>)\<close>

text \<open>\<^verbatim>\<open>int(s, 16)\<close> on a string of lower-case hexadecimal digits.\<close>

definition hexval :: "char \<Rightarrow> nat" where
  "hexval c = (let n = (of_char c :: nat) in if 48 \<le> n \<and> n \<le> 57 then n - 48 else n - 87)"

definition int16 :: "string \<Rightarrow> nat" where
  "int16 s = foldl (\<lambda>a c. 16 * a + hexval c) 0 s"

text \<open>
  The loop over the tokens. \<^verbatim>\<open>% self.dim\<close> raises \<^verbatim>\<open>ZeroDivisionError\<close> when the
  dimension is 0.
\<close>

fun encode_loop :: "nat \<Rightarrow> string list \<Rightarrow> real list \<Rightarrow> error + real list" where
  "encode_loop dm [] out = Inr out"
| "encode_loop dm (token # ts) out =
     (if dm = 0 then Inl ZeroDivisionError
      else let h = stable_hash token;
               bucket = int16 (take 8 h) mod dm;
               sign = (if int16 (take 8 (drop 8 h)) mod 2 = 0 then 1 else - 1)
           in encode_loop dm ts (out[bucket := out ! bucket + sign]))"

definition l2_norm :: "real list \<Rightarrow> real" where
  "l2_norm v = sqrt (sum_list (map (\<lambda>x. x * x) v))"

definition encode :: "nat \<Rightarrow> string \<Rightarrow> error + real list" where
  "encode dm s =
     (let out = replicate dm 0; tokens = tokenize s
      in if tokens = [] then Inr out
         else (case encode_loop dm tokens out of
                 Inl e \<Rightarrow> Inl e
               | Inr acc \<Rightarrow>
                   let norm = l2_norm acc
                   in if norm = 0 then Inr acc else Inr (map (\<lambda>x. x / norm) acc)))"

section \<open>Similarity and clamping (\<^verbatim>\<open>utils.py\<close>)\<close>

definition clamp01 :: "real \<Rightarrow> real" where
  "clamp01 x = max 0 (min 1 x)"

definition dot :: "real list \<Rightarrow> real list \<Rightarrow> real" where
  "dot a b = sum_list (map (\<lambda>(x, y). x * y) (zip a b))"

definition cosine_similarity :: "real list \<Rightarrow> real list \<Rightarrow> real" where
  "cosine_similarity a b =
     (if a = [] \<or> b = [] \<or> length a \<noteq> length b then 0
      else let na = l2_norm a; nb = l2_norm b
           in if na = 0 \<or> nb = 0 then 0 else dot a b / (na * nb))"

section \<open>Rankings\<close>

text \<open>
  A row \<^verbatim>\<open>{"qid": q, "score": s}\<close> is the pair \<open>(q, s)\<close>. \<open>sort_desc\<close> is
  \<^verbatim>\<open>rows.sort(key=lambda x: x["score"], reverse=True)\<close>: descending by score, rows of equal
  score in their former order.
\<close>

type_synonym hit = "string \<times> real"

definition sort_desc :: "hit list \<Rightarrow> hit list" where
  "sort_desc rows = sort_key (\<lambda>h. - snd h) rows"

text \<open>The members of a list in the order of their first occurrence.\<close>

fun uniq :: "'a list \<Rightarrow> 'a list" where
  "uniq [] = []"
| "uniq (x # xs) = x # filter (\<lambda>y. y \<noteq> x) (uniq xs)"

definition get_or :: "('k \<times> 'v) list \<Rightarrow> 'k \<Rightarrow> 'v \<Rightarrow> 'v" where
  "get_or d k dflt = (case map_of d k of None \<Rightarrow> dflt | Some v \<Rightarrow> v)"

section \<open>The vector index (\<^verbatim>\<open>vector_index.py\<close>)\<close>

type_synonym VectorIndex = "(string \<times> real list) list"

definition upsert :: "(string \<times> real list) list \<Rightarrow> VectorIndex \<Rightarrow> VectorIndex" where
  "upsert rows vi = foldl (\<lambda>d row. AList.update (fst row) (snd row) d) vi rows"

definition remove :: "string list \<Rightarrow> VectorIndex \<Rightarrow> VectorIndex" where
  "remove qids vi = foldl (\<lambda>d q. AList.delete q d) vi qids"

text \<open>
  \<^verbatim>\<open>_search_heap\<close>. The heap holds pairs \<open>(score, qid)\<close>; Python orders them by score, then
  by qid. Of the heap only its least element \<^verbatim>\<open>heap[0]\<close> and, at the end,
  \<^verbatim>\<open>sorted(heap, reverse=True)\<close> are read, so the model keeps it as an ascending list:
  \<^verbatim>\<open>heappush\<close> inserts, \<^verbatim>\<open>heapreplace\<close> drops the least element and inserts.
  \<^verbatim>\<open>heap[0]\<close> on an empty heap raises \<^verbatim>\<open>IndexError\<close> (reached when \<open>top_k = 0\<close>).
\<close>

fun heap_loop ::
  "real list \<Rightarrow> nat \<Rightarrow> (string \<times> real list) list \<Rightarrow> (real \<times> string) list
     \<Rightarrow> error + (real \<times> string) list" where
  "heap_loop vector k [] heap = Inr heap"
| "heap_loop vector k ((q, v) # rows) heap =
     (if length v \<noteq> length vector then heap_loop vector k rows heap
      else let sc = cosine_similarity vector v
           in if sc \<le> 0 then heap_loop vector k rows heap
              else if length heap < k then heap_loop vector k rows (insort (sc, q) heap)
              else (case heap of
                      [] \<Rightarrow> Inl IndexError
                    | least # rest \<Rightarrow>
                        if sc > fst least then heap_loop vector k rows (insort (sc, q) rest)
                        else heap_loop vector k rows heap))"

definition search_heap :: "VectorIndex \<Rightarrow> real list \<Rightarrow> nat \<Rightarrow> error + hit list" where
  "search_heap vi vector k =
     (case heap_loop vector k vi [] of
        Inl e \<Rightarrow> Inl e
      | Inr heap \<Rightarrow> Inr (map (\<lambda>(sc, q). (q, sc)) (rev (sort heap))))"

text \<open>
  \<^verbatim>\<open>_search_numpy\<close>. \<^verbatim>\<open>np.array(rows, dtype=np.float32)\<close> builds a matrix from the stored
  vectors; numpy refuses a list of rows of different lengths with \<^verbatim>\<open>ValueError\<close>.
  \<^verbatim>\<open>mat.shape[1]\<close> is the common length of the rows. The indices are taken in descending
  order of similarity, the first \<open>top_k\<close> of them, then the positive scores are kept.
  (With no rows \<^verbatim>\<open>mat.shape[1]\<close> raises \<^verbatim>\<open>IndexError\<close>; \<open>search\<close> never calls the function
  so.) The order numpy gives to equal similarities is not specified; the model is stable.
\<close>

definition search_numpy :: "VectorIndex \<Rightarrow> real list \<Rightarrow> nat \<Rightarrow> error + hit list" where
  "search_numpy vi vector k =
     (case vi of
        [] \<Rightarrow> Inl IndexError
      | (q0, v0) # _ \<Rightarrow>
          if list_ex (\<lambda>row. length (snd row) \<noteq> length v0) vi then Inl ValueError
          else if length v0 \<noteq> length vector then Inr []
          else let q_norm = l2_norm vector + 1 / 10 ^ 12;
                   sims = map (\<lambda>row. (fst row,
                            dot (snd row) vector / ((l2_norm (snd row) + 1 / 10 ^ 12) * q_norm))) vi
               in Inr (filter (\<lambda>h. snd h > 0) (take k (sort_desc sims))))"

text \<open>\<open>np\<close> says whether numpy could be imported.\<close>

definition search :: "bool \<Rightarrow> VectorIndex \<Rightarrow> real list \<Rightarrow> nat \<Rightarrow> error + hit list" where
  "search np vi vector k =
     (if vector = [] then Inr []
      else if np \<and> vi \<noteq> [] then search_numpy vi vector k
      else search_heap vi vector k)"

section \<open>The BM25 index (\<^verbatim>\<open>bm25.py\<close>)\<close>

text \<open>The engine builds the index with the default parameters \<open>k1 = 1.2\<close> and \<open>b = 0.75\<close>.\<close>

record BM25Index =
  bm_docs :: "(string \<times> string list) list"
  doc_len :: "(string \<times> nat) list"
  inverted :: "(string \<times> (string \<times> nat) list) list"
  total_docs :: nat
  avg_doc_len :: real

definition new_bm25 :: BM25Index where
  "new_bm25 = \<lparr>bm_docs = [], doc_len = [], inverted = [], total_docs = 0, avg_doc_len = 0\<rparr>"

definition term_counts :: "string list \<Rightarrow> (string \<times> nat) list" where
  "term_counts tokens = foldl (\<lambda>tf t. AList.update t (get_or tf t 0 + 1) tf) [] tokens"

definition bm25_rebuild :: "BM25Index \<Rightarrow> BM25Index" where
  "bm25_rebuild ix =
     (let ds = bm_docs ix;
          inv = foldl (\<lambda>inv d.
                   foldl (\<lambda>inv tc. AList.update (fst tc) (get_or inv (fst tc) [] @ [(fst d, snd tc)]) inv)
                     inv (term_counts (snd d))) [] ds;
          total_len = sum_list (map (\<lambda>d. length (snd d)) ds)
      in ix\<lparr>doc_len := map (\<lambda>d. (fst d, length (snd d))) ds,
            inverted := inv,
            total_docs := length ds,
            avg_doc_len := (if length ds \<noteq> 0 then real total_len / real (length ds) else 0)\<rparr>)"

definition add_documents :: "(string \<times> string) list \<Rightarrow> BM25Index \<Rightarrow> BM25Index" where
  "add_documents rows ix =
     bm25_rebuild
       (ix\<lparr>bm_docs := foldl (\<lambda>d row. AList.update (fst row) (tokenize (snd row)) d) (bm_docs ix) rows\<rparr>)"

definition bm25_term_score :: "BM25Index \<Rightarrow> real \<Rightarrow> real \<Rightarrow> string \<times> nat \<Rightarrow> real" where
  "bm25_term_score ix avgdl idf p =
     (let dl = max (get_or (doc_len ix) (fst p) 0) 1;
          num = real (snd p) * (12 / 10 + 1);
          den = real (snd p) + 12 / 10 * (1 - 75 / 100 + 75 / 100 * (real dl / avgdl))
      in idf * (num / den))"

definition bm25_search :: "BM25Index \<Rightarrow> string \<Rightarrow> nat \<Rightarrow> hit list" where
  "bm25_search ix qry k =
     (let q_terms = uniq (tokenize qry)
      in if q_terms = [] \<or> total_docs ix = 0 then []
         else let avgdl = max (avg_doc_len ix) 1;
                  scores = foldl (\<lambda>scores term.
                      (case map_of (inverted ix) term of
                         None \<Rightarrow> scores
                       | Some posting \<Rightarrow>
                           if posting = [] then scores
                           else let df = real (length posting);
                                    idf = ln (1 + (real (total_docs ix) - df + 5 / 10) / (df + 5 / 10))
                                in foldl (\<lambda>scores p.
                                     AList.update (fst p)
                                       (get_or scores (fst p) 0 + bm25_term_score ix avgdl idf p) scores)
                                   scores posting)) [] q_terms
              in take k (sort_desc (filter (\<lambda>h. snd h > 0) scores)))"

section \<open>Reciprocal rank fusion (\<^verbatim>\<open>fusion.py\<close>)\<close>

definition rrf_fuse :: "hit list list \<Rightarrow> nat \<Rightarrow> hit list" where
  "rrf_fuse rankings k =
     sort_desc
       (foldl (\<lambda>merged rows.
          foldl (\<lambda>merged ir.
              AList.update (fst (snd ir))
                (get_or merged (fst (snd ir)) 0 + 1 / real (k + fst ir + 1)) merged)
            merged (enumerate 0 rows)) [] rankings)"

section \<open>Channel scores and hybrid fusion (\<^verbatim>\<open>scoring.py\<close>)\<close>

definition score_sparse :: "BM25Index \<Rightarrow> string \<Rightarrow> nat \<Rightarrow> string list \<Rightarrow> hit list" where
  "score_sparse bm25 query_text k allowed_qids =
     (if strip query_text = [] then []
      else filter (\<lambda>x. List.member allowed_qids (fst x)) (bm25_search bm25 query_text k))"

definition merge_max :: "hit list \<Rightarrow> hit list \<Rightarrow> hit list" where
  "merge_max merged rows =
     foldl (\<lambda>m row. AList.update (fst row) (max (get_or m (fst row) (- 1)) (snd row)) m) merged rows"

definition score_dense ::
  "bool \<Rightarrow> VectorIndex \<Rightarrow> VectorIndex \<Rightarrow> real list \<Rightarrow> nat \<Rightarrow> string list \<Rightarrow> error + hit list" where
  "score_dense np stem_ix explanation_ix query_vector k allowed_qids =
     (if query_vector = [] then Inr []
      else (case search np stem_ix query_vector k of
              Inl e \<Rightarrow> Inl e
            | Inr stem_hits \<Rightarrow>
                (case search np explanation_ix query_vector k of
                   Inl e \<Rightarrow> Inl e
                 | Inr exp_hits \<Rightarrow>
                     let merged = merge_max (merge_max [] stem_hits) exp_hits
                     in Inr (take k (sort_desc
                               (filter (\<lambda>x. List.member allowed_qids (fst x)) merged))))))"

definition score_image ::
  "bool \<Rightarrow> VectorIndex \<Rightarrow> (string \<times> string) list \<Rightarrow> real list option \<Rightarrow> nat \<Rightarrow> string list
     \<Rightarrow> error + hit list" where
  "score_image np image_ix owner img_vector k allowed_qids =
     (case img_vector of
        None \<Rightarrow> Inr []
      | Some iv \<Rightarrow>
          if iv = [] then Inr []
          else (case search np image_ix iv k of
                  Inl e \<Rightarrow> Inl e
                | Inr raw \<Rightarrow>
                    Inr (sort_desc
                          (foldl (\<lambda>merged row.
                              (case map_of owner (fst row) of
                                 None \<Rightarrow> merged
                               | Some q \<Rightarrow>
                                   if q = [] \<or> \<not> List.member allowed_qids q then merged
                                   else AList.update q (max (get_or merged q (- 1)) (snd row)) merged))
                            [] raw))))"

definition normalize_by_max :: "hit list \<Rightarrow> hit list" where
  "normalize_by_max rows =
     (case rows of
        [] \<Rightarrow> []
      | r # rs \<Rightarrow>
          let mx = foldl max (snd r) (map snd rs)
          in if mx \<le> 0 then []
             else foldl (\<lambda>d x. AList.update (fst x) (snd x / mx) d) [] rows)"

text \<open>The weights that the fusion uses: the first statements of \<^verbatim>\<open>fuse_hybrid_scores\<close>.\<close>

definition effective_weights :: "RAGConfig \<Rightarrow> bool \<Rightarrow> real \<times> real \<times> real" where
  "effective_weights config has_image_query =
     (let sparse_w = sparse_weight config; dense_w = dense_weight config;
          image_w = image_weight config
      in if \<not> has_image_query \<and> image_w > 0
         then (sparse_w + image_w * (5 / 10), dense_w + image_w * (5 / 10), 0)
         else (sparse_w, dense_w, image_w))"

definition fuse_hybrid_scores ::
  "hit list \<Rightarrow> hit list \<Rightarrow> hit list \<Rightarrow> RAGConfig \<Rightarrow> bool \<Rightarrow> hit list" where
  "fuse_hybrid_scores bm25_hits dense_hits image_hits config has_image_query =
     (case effective_weights config has_image_query of (sparse_w, dense_w, image_w) \<Rightarrow>
        let bm25_norm = normalize_by_max bm25_hits;
            dense_norm = normalize_by_max dense_hits;
            image_norm = normalize_by_max image_hits;
            rrf = rrf_fuse [bm25_hits, dense_hits, image_hits] (rrf_k config);
            rrf_norm = normalize_by_max rrf;
            qids = uniq (map fst (bm25_hits @ dense_hits @ image_hits @ rrf));
            scored = map (\<lambda>q. (q, sparse_w * get_or bm25_norm q 0
                                  + dense_w * get_or dense_norm q 0
                                  + image_w * get_or image_norm q 0
                                  + rrf_weight config * get_or rrf_norm q 0)) qids
        in sort_desc (filter (\<lambda>x. snd x > 0) scored))"

section \<open>The reranker (\<^verbatim>\<open>reranker.py\<close>)\<close>

definition token_overlap :: "string \<Rightarrow> string \<Rightarrow> real" where
  "token_overlap a b =
     (let sa = uniq (tokenize a); sb = uniq (tokenize b)
      in if sa = [] \<or> sb = [] then 0
         else real (length (filter (\<lambda>t. List.member sb t) sa))
                / real (max 1 (min (length sa) (length sb))))"

text \<open>An embedder is any function from a text to a vector that may raise.\<close>

type_synonym Embedder = "string \<Rightarrow> error + real list"

definition rerank_pair_score :: "string \<Rightarrow> string \<Rightarrow> real \<Rightarrow> Embedder \<Rightarrow> error + real" where
  "rerank_pair_score query_text doc_text dense_sc embedder =
     (let overlap = token_overlap query_text doc_text
      in case embedder query_text of
           Inl e \<Rightarrow> Inl e
         | Inr qv \<Rightarrow>
             (case embedder doc_text of
                Inl e \<Rightarrow> Inl e
              | Inr dv \<Rightarrow>
                  Inr (clamp01 (5 / 10 * overlap + 3 / 10 * clamp01 ((dot qv dv + 1) / 2)
                                + 2 / 10 * clamp01 ((dense_sc + 1) / 2)))))"

section \<open>Raw rows\<close>

text \<open>
  A raw row is a dict; the model gives every key that the engine reads the type the
  interface states for it, and names the field after the key (\<open>k_qid\<close> is the key
  \<^verbatim>\<open>qid\<close>). \<open>None\<close> stands for a key that is absent or holds \<^verbatim>\<open>null\<close>: \<^verbatim>\<open>row.get(key)\<close> does
  not tell the two apart. Where the engine reads with a default (\<^verbatim>\<open>img.get('caption', '')\<close>)
  the two differ, and the field is a \<open>field\<close>.
\<close>

datatype 'a field = Absent | Null | Val 'a

definition field_get :: "'a field \<Rightarrow> 'a option" where
  "field_get f = (case f of Val x \<Rightarrow> Some x | _ \<Rightarrow> None)"

text \<open>\<^verbatim>\<open>f"{d.get(key, dflt)}"\<close> for a string key: \<^verbatim>\<open>null\<close> prints as \<^verbatim>\<open>None\<close>.\<close>

definition field_text :: "string field \<Rightarrow> string \<Rightarrow> string" where
  "field_text f dflt = (case f of Absent \<Rightarrow> dflt | Null \<Rightarrow> ''None'' | Val s \<Rightarrow> s)"

record raw_image =
  k_imageId :: "string option"
  k_path :: "string option"
  k_ocrText :: "string field"
  k_caption :: "string field"
  k_imageVector :: "real list option"

datatype raw_options = NoOptions | OptionList "string list" | OptionDict "(string \<times> string) list"

record raw_row =
  k_qid :: "string option"
  k_id :: "int option"
  k_stem :: "string option"
  k_stem_md :: "string option"
  k_options :: raw_options
  k_answer :: "string option"
  k_explanation :: "string option"
  k_explanation_md :: "string option"
  k_images :: "raw_image list"
  k_tags :: "string list"
  k_metadata :: "(string \<times> pyval) list"
  k_area :: pyval
  k_subject :: pyval
  k_topic :: pyval
  k_difficulty :: pyval
  k_skillIds :: pyval

record file_row =
  k_fileId :: "string field"
  k_mimeType :: pyval
  k_scanned :: pyval
  k_content :: string

text \<open>What the parser of \<^verbatim>\<open>ingestion.py\<close> returns for one question of a file.\<close>

record parsed_question =
  p_stem :: string
  p_options :: "string list"
  p_answer :: "string option"
  p_explanation :: "string option"
  p_source_question_no :: int

record IngestionInput =
  version :: "int option"
  questions :: "raw_row list"
  files :: "file_row list"

section \<open>The engine (\<^verbatim>\<open>engine.py\<close>)\<close>

text \<open>
  What the engine takes from outside the modelled code: whether numpy is installed, the
  text parser for files (\<^verbatim>\<open>parse_questions_from_file\<close>, an external collaborator of the
  core), \<^verbatim>\<open>json.dumps\<close> on a metadata dict, and the format \<^verbatim>\<open>:.3f\<close> of a float. Every
  theorem below holds for every choice of them.
\<close>

record env =
  numpy :: bool
  parse_questions_from_file :: "file_row \<Rightarrow> parsed_question list"
  json_dumps :: "(string \<times> pyval) list \<Rightarrow> string"
  fmt3 :: "real \<Rightarrow> string"

text \<open>\<open>vectors\<close> holds for every qid the pair of its \<^verbatim>\<open>stem\<close> and \<^verbatim>\<open>exp\<close> vectors.\<close>

record engine =
  config :: RAGConfig
  embedder :: Embedder
  docs :: "(string \<times> QuestionDocument) list"
  vectors :: "(string \<times> real list \<times> real list) list"
  exact_hash_map :: "(string \<times> string) list"
  template_hash_map :: "(string \<times> string list) list"
  bm25 :: BM25Index
  stem_index :: VectorIndex
  explanation_index :: VectorIndex
  image_index :: VectorIndex
  image_owner :: "(string \<times> string) list"

definition new_engine :: "RAGConfig option \<Rightarrow> Embedder option \<Rightarrow> engine" where
  "new_engine cfg emb =
     (let c = (case cfg of None \<Rightarrow> default_config | Some c \<Rightarrow> c)
      in \<lparr>config = c,
          embedder = (case emb of None \<Rightarrow> encode (dense_dim c) | Some e \<Rightarrow> e),
          docs = [], vectors = [], exact_hash_map = [], template_hash_map = [],
          bm25 = new_bm25, stem_index = [], explanation_index = [], image_index = [],
          image_owner = []\<rparr>)"

subsection \<open>Normalisation of the input\<close>

definition newline :: string where
  "newline = [char_of (10 :: nat)]"

text \<open>\<^verbatim>\<open>x or y\<close> on optional strings: \<^verbatim>\<open>None\<close> and the empty string are false.\<close>

definition str_true :: "string option \<Rightarrow> bool" where
  "str_true x = (case x of None \<Rightarrow> False | Some s \<Rightarrow> s \<noteq> [])"

definition nonempty :: "string \<Rightarrow> string option" where
  "nonempty s = (if s = [] then None else Some s)"

definition resolve_stem :: "raw_row \<Rightarrow> string" where
  "resolve_stem row =
     strip (if str_true (k_stem row) then the (k_stem row)
            else if str_true (k_stem_md row) then the (k_stem_md row) else [])"

definition resolve_explanation :: "raw_row \<Rightarrow> string option" where
  "resolve_explanation row =
     (case (case k_explanation row of None \<Rightarrow> k_explanation_md row | Some v \<Rightarrow> Some v) of
        None \<Rightarrow> None
      | Some v \<Rightarrow> nonempty (strip v))"

definition normalize_options :: "raw_options \<Rightarrow> string list" where
  "normalize_options opts =
     (case opts of
        OptionDict d \<Rightarrow>
          map (\<lambda>k. strip (the (map_of d k)))
            (filter (\<lambda>k. (case map_of d k of None \<Rightarrow> False | Some v \<Rightarrow> strip v \<noteq> []))
               [''A'', ''B'', ''C'', ''D''])
      | OptionList xs \<Rightarrow> map strip (filter (\<lambda>x. strip x \<noteq> []) xs)
      | NoOptions \<Rightarrow> [])"

definition normalize_answer :: "string option \<Rightarrow> string option" where
  "normalize_answer a = (case a of None \<Rightarrow> None | Some v \<Rightarrow> nonempty (upper (strip v)))"

definition set_default :: "string \<Rightarrow> pyval \<Rightarrow> (string \<times> pyval) list \<Rightarrow> (string \<times> pyval) list" where
  "set_default key v md = (if v \<noteq> PNone \<and> map_of md key = None then AList.update key v md else md)"

definition normalize_metadata :: "raw_row \<Rightarrow> (string \<times> pyval) list" where
  "normalize_metadata row =
     (let md0 = k_metadata row;
          md1 = set_default ''source_id'' (case k_id row of None \<Rightarrow> PNone | Some i \<Rightarrow> PInt i) md0;
          md2 = set_default ''difficulty'' (k_difficulty row)
                  (set_default ''topic'' (k_topic row)
                     (set_default ''subject'' (k_subject row)
                        (set_default ''area'' (k_area row) md1)))
      in case k_skillIds row of
           PList xs \<Rightarrow> if map_of md2 ''skillIds'' = None then AList.update ''skillIds'' (PList xs) md2 else md2
         | _ \<Rightarrow> md2)"

fun normalize_images :: "Embedder \<Rightarrow> string \<Rightarrow> nat \<Rightarrow> raw_image list \<Rightarrow> error + QuestionImage list" where
  "normalize_images emb q idx [] = Inr []"
| "normalize_images emb q idx (img # imgs) =
     (let iid = (if str_true (k_imageId img) then the (k_imageId img)
                 else q @ ''_img_'' @ str_int (int idx + 1))
      in case (case k_imageVector img of
                 None \<Rightarrow> emb (field_text (k_caption img) [] @ newline @ field_text (k_ocrText img) [])
               | Some v \<Rightarrow>
                   if v = [] then emb (field_text (k_caption img) [] @ newline @ field_text (k_ocrText img) [])
                   else Inr v) of
           Inl e \<Rightarrow> Inl e
         | Inr vec \<Rightarrow>
             (case normalize_images emb q (Suc idx) imgs of
                Inl e \<Rightarrow> Inl e
              | Inr rest \<Rightarrow>
                  Inr (\<lparr>image_id = iid, path = k_path img, ocr_text = field_get (k_ocrText img),
                        caption = field_get (k_caption img), image_vector = Some vec\<rparr> # rest)))"

definition normalize_row :: "Embedder \<Rightarrow> nat \<Rightarrow> raw_row \<Rightarrow> error + QuestionDocument" where
  "normalize_row emb i row =
     (let st = resolve_stem row;
          q = (if str_true (k_qid row) then the (k_qid row)
               else (case k_id row of
                       Some n \<Rightarrow> ''q_'' @ str_int n
                     | None \<Rightarrow> ''q_'' @ stable_hash (st @ '':'' @ str_int (int i))));
          opts = normalize_options (k_options row);
          ex = resolve_explanation row;
          ans = normalize_answer (k_answer row)
      in case normalize_images emb q 0 (k_images row) of
           Inl e \<Rightarrow> Inl e
         | Inr imgs \<Rightarrow>
             Inr \<lparr>qid = q, stem = st, options = opts, answer = ans, explanation = ex,
                  images = imgs, tags = k_tags row, metadata = normalize_metadata row,
                  fingerprints = \<lparr>exact_hash = build_exact_hash st opts ans,
                                  template_hash = build_template_hash st\<rparr>,
                  source = None\<rparr>)"

fun normalize_rows :: "Embedder \<Rightarrow> nat \<Rightarrow> raw_row list \<Rightarrow> error + QuestionDocument list" where
  "normalize_rows emb i [] = Inr []"
| "normalize_rows emb i (row # rows) =
     (case normalize_row emb i row of
        Inl e \<Rightarrow> Inl e
      | Inr d \<Rightarrow>
          (case normalize_rows emb (Suc i) rows of
             Inl e \<Rightarrow> Inl e
           | Inr ds \<Rightarrow> Inr (d # ds)))"

definition normalize_parsed :: "file_row \<Rightarrow> parsed_question \<Rightarrow> QuestionDocument" where
  "normalize_parsed fr p =
     \<lparr>qid = ''q_'' @ stable_hash (field_text (k_fileId fr) ''f'' @ '':''
                       @ str_int (p_source_question_no p) @ '':'' @ p_stem p),
      stem = p_stem p, options = p_options p, answer = p_answer p,
      explanation = p_explanation p, images = [], tags = [],
      metadata = [(''sourceMimeType'', k_mimeType fr), (''scanned'', PBool (truthy (k_scanned fr)))],
      fingerprints = \<lparr>exact_hash = build_exact_hash (p_stem p) (p_options p) (p_answer p),
                      template_hash = build_template_hash (p_stem p)\<rparr>,
      source = Some [(''fileId'', (case k_fileId fr of Val s \<Rightarrow> PStr s | _ \<Rightarrow> PNone)),
                     (''questionNo'', PInt (p_source_question_no p))]\<rparr>"

definition normalize_input :: "env \<Rightarrow> Embedder \<Rightarrow> IngestionInput \<Rightarrow> error + QuestionDocument list" where
  "normalize_input ev emb inp =
     (case normalize_rows emb 0 (questions inp) of
        Inl e \<Rightarrow> Inl e
      | Inr ds \<Rightarrow>
          Inr (ds @ concat (map (\<lambda>fr. map (normalize_parsed fr) (parse_questions_from_file ev fr))
                              (files inp))))"

subsection \<open>Ingestion\<close>

definition find_near_duplicate :: "env \<Rightarrow> engine \<Rightarrow> QuestionDocument \<Rightarrow> error + hit option" where
  "find_near_duplicate ev st q =
     (case embedder st (py_join newline (stem q # options q)) of
        Inl e \<Rightarrow> Inl e
      | Inr qv \<Rightarrow>
          (case search (numpy ev) (stem_index st) qv 5 of
             Inl e \<Rightarrow> Inl e
           | Inr hits \<Rightarrow> Inr (case hits of [] \<Rightarrow> None | h # _ \<Rightarrow> Some h)))"

definition store_question :: "engine \<Rightarrow> QuestionDocument \<Rightarrow> error + engine" where
  "store_question st q =
     (let th = template_hash (fingerprints q);
          st1 = st\<lparr>docs := AList.update (qid q) q (docs st),
                   exact_hash_map := AList.update (exact_hash (fingerprints q)) (qid q) (exact_hash_map st),
                   template_hash_map :=
                     AList.update th (get_or (template_hash_map st) th [] @ [qid q]) (template_hash_map st)\<rparr>
      in case embedder st (py_join newline (stem q # options q)) of
           Inl e \<Rightarrow> Inl e
         | Inr stem_vec \<Rightarrow>
             (case (if str_true (explanation q) then embedder st (the (explanation q)) else Inr []) of
                Inl e \<Rightarrow> Inl e
              | Inr exp_vec \<Rightarrow>
                  Inr (st1\<lparr>vectors := AList.update (qid q) (stem_vec, exp_vec) (vectors st)\<rparr>)))"

text \<open>\<^verbatim>\<open>if matched_exact:\<close> holds when the map has the hash and the qid under it is not empty.\<close>

definition matched_exact :: "engine \<Rightarrow> QuestionDocument \<Rightarrow> string option" where
  "matched_exact st q =
     (case map_of (exact_hash_map st) (exact_hash (fingerprints q)) of
        None \<Rightarrow> None
      | Some m \<Rightarrow> nonempty m)"

definition dedup_result :: "engine \<Rightarrow> QuestionDocument \<Rightarrow> hit option \<Rightarrow> IngestedQuestion" where
  "dedup_result st q near =
     (case near of
        None \<Rightarrow> \<lparr>question = q, status = ''new'', matched_qid = None, score = None\<rparr>
      | Some h \<Rightarrow>
          if snd h \<ge> near_duplicate_threshold (config st)
          then \<lparr>question = q, status = ''near-duplicate'', matched_qid = Some (fst h), score = Some (snd h)\<rparr>
          else \<lparr>question = q, status = ''new'', matched_qid = None, score = None\<rparr>)"

fun ingest_loop ::
  "env \<Rightarrow> engine \<Rightarrow> QuestionDocument list \<Rightarrow> IngestedQuestion list
     \<Rightarrow> error + (IngestedQuestion list \<times> engine)" where
  "ingest_loop ev st [] out = Inr (out, st)"
| "ingest_loop ev st (q # qs) out =
     (case matched_exact st q of
        Some m \<Rightarrow>
          ingest_loop ev st qs
            (out @ [\<lparr>question = q, status = ''exact-duplicate'', matched_qid = Some m, score = Some 1\<rparr>])
      | None \<Rightarrow>
          (case find_near_duplicate ev st q of
             Inl e \<Rightarrow> Inl e
           | Inr near \<Rightarrow>
               (case store_question st q of
                  Inl e \<Rightarrow> Inl e
                | Inr st' \<Rightarrow> ingest_loop ev st' qs (out @ [dedup_result st q near]))))"

definition bm25_text :: "env \<Rightarrow> QuestionDocument \<Rightarrow> string" where
  "bm25_text ev d =
     py_join newline
       ([stem d, stem d] @ options d
          @ [case explanation d of None \<Rightarrow> [] | Some e \<Rightarrow> e,
             py_join '' '' (map (\<lambda>i. case ocr_text i of None \<Rightarrow> [] | Some t \<Rightarrow> t) (images d)),
             py_join '' '' (map (\<lambda>i. case caption i of None \<Rightarrow> [] | Some t \<Rightarrow> t) (images d)),
             json_dumps ev (metadata d)])"

text \<open>\<^verbatim>\<open>self.vectors[d.qid]\<close> for every document; \<^verbatim>\<open>KeyError\<close> when one has no entry.\<close>

fun doc_vectors ::
  "(string \<times> real list \<times> real list) list \<Rightarrow> QuestionDocument list
     \<Rightarrow> error + (string \<times> real list \<times> real list) list" where
  "doc_vectors vs [] = Inr []"
| "doc_vectors vs (d # ds) =
     (case map_of vs (qid d) of
        None \<Rightarrow> Inl KeyError
      | Some v \<Rightarrow>
          (case doc_vectors vs ds of
             Inl e \<Rightarrow> Inl e
           | Inr rest \<Rightarrow> Inr ((qid d, v) # rest)))"

definition image_rows :: "QuestionDocument list \<Rightarrow> (string \<times> real list \<times> string) list" where
  "image_rows ds =
     concat (map (\<lambda>d. concat (map (\<lambda>img.
        (case image_vector img of
           None \<Rightarrow> []
         | Some v \<Rightarrow> if v = [] then [] else [(image_id img, v, qid d)])) (images d))) ds)"

definition rebuild_indexes :: "env \<Rightarrow> engine \<Rightarrow> error + engine" where
  "rebuild_indexes ev st =
     (let ds = map snd (docs st)
      in case doc_vectors (vectors st) ds of
           Inl e \<Rightarrow> Inl e
         | Inr vs \<Rightarrow>
             Inr (st\<lparr>bm25 := add_documents (map (\<lambda>d. (qid d, bm25_text ev d)) ds) new_bm25,
                     stem_index := upsert (map (\<lambda>r. (fst r, fst (snd r))) vs) [],
                     explanation_index :=
                       upsert (map (\<lambda>r. (fst r, snd (snd r))) (filter (\<lambda>r. snd (snd r) \<noteq> []) vs)) [],
                     image_index := upsert (map (\<lambda>r. (fst r, fst (snd r))) (image_rows ds)) [],
                     image_owner :=
                       foldl (\<lambda>m r. AList.update (fst r) (snd (snd r)) m) [] (image_rows ds)\<rparr>))"

definition ingest :: "env \<Rightarrow> engine \<Rightarrow> IngestionInput \<Rightarrow> error + (IngestedQuestion list \<times> engine)" where
  "ingest ev st payload =
     (case normalize_input ev (embedder st) payload of
        Inl e \<Rightarrow> Inl e
      | Inr normalized \<Rightarrow>
          (case ingest_loop ev st normalized [] of
             Inl e \<Rightarrow> Inl e
           | Inr (out, st') \<Rightarrow>
               (case rebuild_indexes ev st' of
                  Inl e \<Rightarrow> Inl e
                | Inr st'' \<Rightarrow> Inr (out, st''))))"

subsection \<open>Retrieval\<close>

definition resolve_query_text :: "engine \<Rightarrow> QueryInput \<Rightarrow> string" where
  "resolve_query_text st qry =
     (if str_true (q_text qry) \<and> strip (the (q_text qry)) \<noteq> [] then strip (the (q_text qry))
      else if str_true (question_id qry)
      then (case map_of (docs st) (the (question_id qry)) of None \<Rightarrow> [] | Some d \<Rightarrow> stem d)
      else [])"

text \<open>
  One line of \<^verbatim>\<open>_filter_qids\<close>: \<^verbatim>\<open>if f.get(key) and md.get(key) != f.get(key): continue\<close>.
  The filter is applied when its value is true in Python's sense.
\<close>

definition filter_rejects :: "(string \<times> pyval) list \<Rightarrow> (string \<times> pyval) list \<Rightarrow> string \<Rightarrow> bool" where
  "filter_rejects f md key = (truthy (py_get f key) \<and> \<not> py_eq (py_get md key) (py_get f key))"

text \<open>The line for \<^verbatim>\<open>year\<close> tests \<^verbatim>\<open>is not None\<close> instead.\<close>

definition year_rejects :: "(string \<times> pyval) list \<Rightarrow> (string \<times> pyval) list \<Rightarrow> bool" where
  "year_rejects f md = (py_get f ''year'' \<noteq> PNone \<and> \<not> py_eq (py_get md ''year'') (py_get f ''year''))"

definition passes_filters :: "(string \<times> pyval) list \<Rightarrow> QuestionDocument \<Rightarrow> bool" where
  "passes_filters f d =
     (\<not> filter_rejects f (metadata d) ''subject''
      \<and> \<not> filter_rejects f (metadata d) ''gradeLevel''
      \<and> \<not> filter_rejects f (metadata d) ''difficulty''
      \<and> \<not> filter_rejects f (metadata d) ''questionType''
      \<and> \<not> filter_rejects f (metadata d) ''examBoard''
      \<and> \<not> year_rejects f (metadata d))"

definition filter_qids :: "engine \<Rightarrow> QueryInput \<Rightarrow> string list" where
  "filter_qids st qry = uniq (map qid (filter (passes_filters (filters qry)) (map snd (docs st))))"

definition classify :: "engine \<Rightarrow> real \<Rightarrow> string" where
  "classify st sc =
     (if sc \<ge> duplicate_threshold (config st) then ''duplicate''
      else if sc \<ge> near_duplicate_threshold (config st) then ''near-duplicate''
      else if sc \<ge> 65 / 100 then ''similar''
      else ''related'')"

text \<open>
  A row of the list \<^verbatim>\<open>reranked\<close>. Its \<^verbatim>\<open>dense_score\<close> is the float that went into the
  reranker (\<^verbatim>\<open>dense_map.get(doc.qid, 0.0)\<close>); the two other channel scores come from
  \<^verbatim>\<open>.get(doc.qid)\<close> and may be \<^verbatim>\<open>None\<close>.
\<close>

record rerank_row =
  c_qid :: string
  c_score :: real
  c_rerank_score :: real
  c_bm25_score :: "real option"
  c_dense_score :: real
  c_image_score :: "real option"
  c_question :: QuestionDocument

definition reason_text :: "env \<Rightarrow> rerank_row \<Rightarrow> string" where
  "reason_text ev row =
     py_join '', ''
       ((case c_bm25_score row of None \<Rightarrow> [] | Some s \<Rightarrow> [''bm25='' @ fmt3 ev s])
        @ [''dense='' @ fmt3 ev (c_dense_score row)]
        @ (case c_image_score row of None \<Rightarrow> [] | Some s \<Rightarrow> [''image='' @ fmt3 ev s])
        @ [''rerank='' @ fmt3 ev (c_rerank_score row)])"

text \<open>\<^verbatim>\<open>{x["qid"]: x["score"] for x in hits}\<close>.\<close>

definition score_map :: "hit list \<Rightarrow> hit list" where
  "score_map hits = foldl (\<lambda>d x. AList.update (fst x) (snd x) d) [] hits"

fun rerank_loop ::
  "engine \<Rightarrow> string \<Rightarrow> hit list \<Rightarrow> hit list \<Rightarrow> hit list \<Rightarrow> hit list \<Rightarrow> error + rerank_row list" where
  "rerank_loop st query_text bm25_map dense_map image_map [] = Inr []"
| "rerank_loop st query_text bm25_map dense_map image_map (cand # cands) =
     (case map_of (docs st) (fst cand) of
        None \<Rightarrow> rerank_loop st query_text bm25_map dense_map image_map cands
      | Some doc \<Rightarrow>
          let doc_text = py_join newline
                           ([stem doc] @ options doc @ [case explanation doc of None \<Rightarrow> [] | Some e \<Rightarrow> e]);
              dense_sc = get_or dense_map (qid doc) 0
          in case rerank_pair_score query_text doc_text dense_sc (embedder st) of
               Inl e \<Rightarrow> Inl e
             | Inr rr \<Rightarrow>
                 (case rerank_loop st query_text bm25_map dense_map image_map cands of
                    Inl e \<Rightarrow> Inl e
                  | Inr rest \<Rightarrow>
                      Inr (\<lparr>c_qid = qid doc, c_score = snd cand, c_rerank_score = rr,
                            c_bm25_score = map_of bm25_map (qid doc), c_dense_score = dense_sc,
                            c_image_score = map_of image_map (qid doc), c_question = doc\<rparr> # rest)))"

definition make_result :: "env \<Rightarrow> engine \<Rightarrow> rerank_row \<Rightarrow> RetrievalResult" where
  "make_result ev st row =
     \<lparr>r_qid = c_qid row, r_score = c_score row, bm25_score = c_bm25_score row,
      dense_score = Some (c_dense_score row), image_score = c_image_score row,
      rerank_score = c_rerank_score row, duplicate_class = classify st (c_rerank_score row),
      reason = reason_text ev row, r_question = c_question row\<rparr>"

text \<open>\<^verbatim>\<open>query.top_k or default\<close>: \<^verbatim>\<open>None\<close> and 0 give the default.\<close>

definition count_or :: "nat option \<Rightarrow> nat \<Rightarrow> nat" where
  "count_or x dflt = (case x of None \<Rightarrow> dflt | Some n \<Rightarrow> if n = 0 then dflt else n)"

definition has_vector :: "real list option \<Rightarrow> bool" where
  "has_vector v = (case v of None \<Rightarrow> False | Some xs \<Rightarrow> xs \<noteq> [])"

definition retrieve :: "env \<Rightarrow> engine \<Rightarrow> QueryInput \<Rightarrow> error + RetrievalResponse" where
  "retrieve ev st qry =
     (let query_text = resolve_query_text st qry;
          k = count_or (top_k qry) (bm25_top_k (config st));
          m = count_or (top_m qry) (rerank_top_m (config st));
          n = count_or (top_n qry) (final_top_n (config st));
          filtered_qids = filter_qids st qry
      in if filtered_qids = []
         then Inr \<lparr>query = qry,
                   counts = [(''bm25Candidates'', 0), (''denseCandidates'', 0),
                             (''imageCandidates'', 0), (''fusedCandidates'', 0),
                             (''rerankedCandidates'', 0), (''finalResults'', 0)],
                   results = []\<rparr>
         else let bm25_hits = score_sparse (bm25 st) query_text k filtered_qids
              in case (if query_text \<noteq> [] then embedder st query_text else Inr []) of
                   Inl e \<Rightarrow> Inl e
                 | Inr q_vector \<Rightarrow>
              (case score_dense (numpy ev) (stem_index st) (explanation_index st) q_vector
                      (dense_top_k (config st)) filtered_qids of
                 Inl e \<Rightarrow> Inl e
               | Inr dense_hits \<Rightarrow>
              (case score_image (numpy ev) (image_index st) (image_owner st) (q_image_vector qry)
                      (image_top_k (config st)) filtered_qids of
                 Inl e \<Rightarrow> Inl e
               | Inr image_hits \<Rightarrow>
                   let fused = fuse_hybrid_scores bm25_hits dense_hits image_hits (config st)
                                 (has_vector (q_image_vector qry));
                       rerank_candidates = take m fused
                   in case rerank_loop st query_text (score_map bm25_hits) (score_map dense_hits)
                             (score_map image_hits) rerank_candidates of
                        Inl e \<Rightarrow> Inl e
                      | Inr unsorted \<Rightarrow>
                          let reranked = sort_key (\<lambda>row. - c_rerank_score row) unsorted;
                              res = map (make_result ev st) (take n reranked)
                          in Inr \<lparr>query = qry,
                                  counts = [(''bm25Candidates'', length bm25_hits),
                                            (''denseCandidates'', length dense_hits),
                                            (''imageCandidates'', length image_hits),
                                            (''fusedCandidates'', length fused),
                                            (''rerankedCandidates'', length reranked),
                                            (''finalResults'', length res)],
                                  results = res\<rparr>)))"

section \<open>Persistence (\<^verbatim>\<open>local_store.py\<close>)\<close>

text \<open>
  \<^verbatim>\<open>dataclasses.asdict\<close>: a dict keyed by the names of the fields of the dataclass, nested
  dataclasses included.
\<close>

definition opt_str :: "string option \<Rightarrow> pyval" where
  "opt_str x = (case x of None \<Rightarrow> PNone | Some s \<Rightarrow> PStr s)"

definition asdict_image :: "QuestionImage \<Rightarrow> pyval" where
  "asdict_image img =
     PDict [(''image_id'', PStr (image_id img)),
            (''path'', opt_str (path img)),
            (''ocr_text'', opt_str (ocr_text img)),
            (''caption'', opt_str (caption img)),
            (''image_vector'', (case image_vector img of None \<Rightarrow> PNone | Some v \<Rightarrow> PList (map PFloat v)))]"

definition asdict :: "QuestionDocument \<Rightarrow> pyval" where
  "asdict d =
     PDict [(''qid'', PStr (qid d)),
            (''stem'', PStr (stem d)),
            (''options'', PList (map PStr (options d))),
            (''answer'', opt_str (answer d)),
            (''explanation'', opt_str (explanation d)),
            (''images'', PList (map asdict_image (images d))),
            (''tags'', PList (map PStr (tags d))),
            (''metadata'', PDict (metadata d)),
            (''fingerprints'', PDict [(''exact_hash'', PStr (exact_hash (fingerprints d))),
                                     (''template_hash'', PStr (template_hash (fingerprints d)))]),
            (''source'', (case source d of None \<Rightarrow> PNone | Some s \<Rightarrow> PDict s))]"

text \<open>
  A file is the list of the JSON objects on its lines: \<^verbatim>\<open>json.loads\<close> gives back the value
  that \<^verbatim>\<open>json.dumps\<close> wrote. The file system maps a path to a file.
\<close>

type_synonym files = "(string \<times> pyval list) list"

definition save_questions_jsonl :: "string \<Rightarrow> QuestionDocument list \<Rightarrow> files \<Rightarrow> nat \<times> files" where
  "save_questions_jsonl p qs fs = (length qs, AList.update p (map asdict qs) fs)"

definition load_questions_jsonl :: "string \<Rightarrow> files \<Rightarrow> pyval list" where
  "load_questions_jsonl p fs = (case map_of fs p of None \<Rightarrow> [] | Some rows \<Rightarrow> rows)"

text \<open>
  The loaded dicts are the raw rows of the replay. \<open>row_of_dict\<close> reads from a dict the keys
  that the normaliser reads, under the names it uses for them. A value of another type than
  the row gives its key is read as absent; the files that \<open>save_questions_jsonl\<close> writes hold
  no such value.
\<close>

definition as_str :: "pyval \<Rightarrow> string option" where
  "as_str v = (case v of PStr s \<Rightarrow> Some s | _ \<Rightarrow> None)"

definition as_field :: "(string \<times> pyval) list \<Rightarrow> string \<Rightarrow> string field" where
  "as_field d k = (case map_of d k of None \<Rightarrow> Absent | Some (PStr s) \<Rightarrow> Val s | Some _ \<Rightarrow> Null)"

definition as_floats :: "pyval \<Rightarrow> real list option" where
  "as_floats v =
     (case v of
        PList xs \<Rightarrow> Some (map (\<lambda>x. case num_of x of None \<Rightarrow> 0 | Some r \<Rightarrow> r) xs)
      | _ \<Rightarrow> None)"

definition as_strs :: "pyval list \<Rightarrow> string list" where
  "as_strs xs = map (\<lambda>x. case x of PStr s \<Rightarrow> s | _ \<Rightarrow> []) xs"

definition image_of_dict :: "pyval \<Rightarrow> raw_image" where
  "image_of_dict v =
     (let d = (case v of PDict kvs \<Rightarrow> kvs | _ \<Rightarrow> [])
      in \<lparr>k_imageId = as_str (py_get d ''imageId''),
          k_path = as_str (py_get d ''path''),
          k_ocrText = as_field d ''ocrText'',
          k_caption = as_field d ''caption'',
          k_imageVector = as_floats (py_get d ''imageVector'')\<rparr>)"

definition row_of_dict :: "pyval \<Rightarrow> raw_row" where
  "row_of_dict v =
     (let d = (case v of PDict kvs \<Rightarrow> kvs | _ \<Rightarrow> [])
      in \<lparr>k_qid = as_str (py_get d ''qid''),
          k_id = (case py_get d ''id'' of PInt i \<Rightarrow> Some i | _ \<Rightarrow> None),
          k_stem = as_str (py_get d ''stem''),
          k_stem_md = as_str (py_get d ''stem_md''),
          k_options = (case py_get d ''options'' of
                         PList xs \<Rightarrow> OptionList (as_strs xs)
                       | PDict kvs \<Rightarrow> OptionDict (map (\<lambda>kv. (fst kv, case snd kv of PStr s \<Rightarrow> s | _ \<Rightarrow> [])) kvs)
                       | _ \<Rightarrow> NoOptions),
          k_answer = as_str (py_get d ''answer''),
          k_explanation = as_str (py_get d ''explanation''),
          k_explanation_md = as_str (py_get d ''explanation_md''),
          k_images = (case py_get d ''images'' of PList xs \<Rightarrow> map image_of_dict xs | _ \<Rightarrow> []),
          k_tags = (case py_get d ''tags'' of PList xs \<Rightarrow> as_strs xs | _ \<Rightarrow> []),
          k_metadata = (case py_get d ''metadata'' of PDict kvs \<Rightarrow> kvs | _ \<Rightarrow> []),
          k_area = py_get d ''area'',
          k_subject = py_get d ''subject'',
          k_topic = py_get d ''topic'',
          k_difficulty = py_get d ''difficulty'',
          k_skillIds = py_get d ''skillIds''\<rparr>)"

definition save_local_bank :: "engine \<Rightarrow> string \<Rightarrow> files \<Rightarrow> nat \<times> files" where
  "save_local_bank st p fs = save_questions_jsonl p (map snd (docs st)) fs"

definition load_local_bank :: "env \<Rightarrow> engine \<Rightarrow> string \<Rightarrow> files \<Rightarrow> error + (nat \<times> engine)" where
  "load_local_bank ev st p fs =
     (let rows = load_questions_jsonl p fs
      in if rows = [] then Inr (0, st)
         else (case ingest ev (st\<lparr>docs := [], vectors := [], exact_hash_map := [], template_hash_map := []\<rparr>)
                      \<lparr>version = None, questions = map row_of_dict rows, files = []\<rparr> of
                 Inl e \<Rightarrow> Inl e
               | Inr (out, st') \<Rightarrow> Inr (length (docs st'), st')))"

section \<open>Banks\<close>

text \<open>
  A bank is a state that a fresh engine reaches through calls of \<open>ingest\<close> and
  \<open>load_local_bank\<close> that return.
\<close>

inductive bank :: "env \<Rightarrow> engine \<Rightarrow> bool" for ev :: env where
  bank_new: "bank ev (new_engine cfg emb)"
| bank_ingest: "bank ev st \<Longrightarrow> ingest ev st payload = Inr (out, st') \<Longrightarrow> bank ev st'"
| bank_load: "bank ev st \<Longrightarrow> load_local_bank ev st p fs = Inr (n, st') \<Longrightarrow> bank ev st'"

section \<open>The invariant of a bank\<close>

text \<open>
  The keys of \<open>docs\<close> are distinct; every document is stored under its own qid, which is
  not empty, owns its exact hash in \<open>exact_hash_map\<close> and has its vectors; no hash is mapped
  to the empty qid.
\<close>

definition bank_inv :: "engine \<Rightarrow> bool" where
  "bank_inv st =
     (distinct (map fst (docs st))
      \<and> (\<forall>k d. map_of (docs st) k = Some d \<longrightarrow>
             qid d = k \<and> k \<noteq> []
             \<and> map_of (exact_hash_map st) (exact_hash (fingerprints d)) = Some k
             \<and> map_of (vectors st) k \<noteq> None)
      \<and> (\<forall>h m. map_of (exact_hash_map st) h = Some m \<longrightarrow> m \<noteq> []))"

section \<open>Example data\<close>

text \<open>
  A small environment and a few rows, documents and banks, for the closed instances of the
  theorems. \<open>unit_embedder\<close> maps every text to the vector \<open>[1]\<close>; \<open>bank_a\<close> is the bank
  after the row \<open>row_a\<close> was ingested into a fresh engine with that embedder, \<open>bank_a2\<close> the
  bank after \<open>row_a2\<close> was ingested into \<open>bank_a\<close>.
\<close>

definition test_env :: env where
  "test_env = \<lparr>numpy = False, parse_questions_from_file = (\<lambda>fr. []),
                json_dumps = (\<lambda>md. ''{}''), fmt3 = (\<lambda>x. ''0.000'')\<rparr>"

definition unit_embedder :: Embedder where
  "unit_embedder = (\<lambda>s. Inr [1])"

definition blank_row :: raw_row where
  "blank_row = \<lparr>k_qid = None, k_id = None, k_stem = None, k_stem_md = None, k_options = NoOptions,
           k_answer = None, k_explanation = None, k_explanation_md = None, k_images = [],
           k_tags = [], k_metadata = [], k_area = PNone, k_subject = PNone, k_topic = PNone,
           k_difficulty = PNone, k_skillIds = PNone\<rparr>"

definition questions_only :: "raw_row list \<Rightarrow> IngestionInput" where
  "questions_only rows = \<lparr>version = None, questions = rows, files = []\<rparr>"

definition plain_doc :: "string \<Rightarrow> string \<Rightarrow> string \<Rightarrow> string \<Rightarrow> QuestionDocument" where
  "plain_doc q s eh th =
     \<lparr>qid = q, stem = s, options = [], answer = None, explanation = None, images = [], tags = [],
      metadata = [], fingerprints = \<lparr>exact_hash = eh, template_hash = th\<rparr>, source = None\<rparr>"

definition doc_a :: QuestionDocument where
  "doc_a = plain_doc ''a'' ''x'' ''165c8050f9af7ba3'' ''35a189af1820c6f5''"

definition bank_a :: engine where
  "bank_a =
     \<lparr>config = default_config, embedder = unit_embedder,
      docs = [(''a'', doc_a)], vectors = [(''a'', [1], [])],
      exact_hash_map = [(''165c8050f9af7ba3'', ''a'')],
      template_hash_map = [(''35a189af1820c6f5'', [''a''])],
      bm25 = add_documents [(''a'', bm25_text test_env doc_a)] new_bm25,
      stem_index = [(''a'', [1])], explanation_index = [], image_index = [], image_owner = []\<rparr>"

definition doc_b :: QuestionDocument where
  "doc_b = plain_doc ''b'' ''x'' ''165c8050f9af7ba3'' ''35a189af1820c6f5''"

definition doc_c :: QuestionDocument where
  "doc_c = plain_doc ''c'' ''x'' ''165c8050f9af7ba3'' ''35a189af1820c6f5''"

definition doc_a2 :: QuestionDocument where
  "doc_a2 = plain_doc ''a'' ''y'' ''f5754f1bc4971144'' ''96ae8b7c350cf08e''"

definition row_a :: raw_row where
  "row_a = blank_row\<lparr>k_qid := Some ''a'', k_stem := Some ''x''\<rparr>"

definition row_b :: raw_row where
  "row_b = blank_row\<lparr>k_qid := Some ''b'', k_stem := Some ''x''\<rparr>"

definition row_c :: raw_row where
  "row_c = blank_row\<lparr>k_qid := Some ''c'', k_stem := Some ''x''\<rparr>"

definition row_a2 :: raw_row where
  "row_a2 = blank_row\<lparr>k_qid := Some ''a'', k_stem := Some ''y''\<rparr>"

definition bank_a2 :: engine where
  "bank_a2 =
     \<lparr>config = default_config, embedder = unit_embedder,
      docs = [(''a'', doc_a2)], vectors = [(''a'', [1], [])],
      exact_hash_map = [(''165c8050f9af7ba3'', ''a''), (''f5754f1bc4971144'', ''a'')],
      template_hash_map = [(''35a189af1820c6f5'', [''a'']), (''96ae8b7c350cf08e'', [''a''])],
      bm25 = add_documents [(''a'', bm25_text test_env doc_a2)] new_bm25,
      stem_index = [(''a'', [1])], explanation_index = [], image_index = [], image_owner = []\<rparr>"

definition exact_duplicate_of :: "QuestionDocument \<Rightarrow> string \<Rightarrow> IngestedQuestion" where
  "exact_duplicate_of q m =
     \<lparr>question = q, status = ''exact-duplicate'', matched_qid = Some m, score = Some 1\<rparr>"

section \<open>The stable hash follows the reference recipe\<close>

text \<open>
  Python computes on unbounded integers and masks with \<^verbatim>\<open>& 0xFFFFFFFF\<close>; the recipe
  computes on 32-bit words. The lemmas relate one round, the whole loop, the finalising
  statements and the output format.
\<close>

lemma mask32: "(x::int) AND 0xFFFFFFFF = take_bit 32 x"
  by (simp add: take_bit_eq_mask mask_eq_exp_minus_1)

lemma uint_of_int32: "uint (word_of_int z :: 32 word) = z AND 0xFFFFFFFF"
  by (simp add: mask32 unsigned_of_int)

lemma round_rel:
  "((uint (w::32 word) XOR int c) * k) AND 0xFFFFFFFF = uint ((w XOR word_of_nat c) * word_of_int k)"
proof -
  have "(w XOR word_of_nat c) * word_of_int k = word_of_int ((uint w XOR int c) * k)"
    by (simp add: of_int_xor_eq)
  then show ?thesis by (simp only: uint_of_int32)
qed

lemma foldl_rel:
  "foldl hash_step (uint a, uint b) units =
     (case foldl recipe_round (a, b) units of (x, y) \<Rightarrow> (uint x, uint y))"
proof (induction units arbitrary: a b)
  case Nil
  then show ?case by simp
next
  case (Cons c cs)
  have "hash_step (uint a, uint b) c =
        (uint ((a XOR word_of_nat c) * 2654435761), uint ((b XOR word_of_nat c) * 1597334677))"
    using round_rel [of a c 2654435761] round_rel [of b c 1597334677]
    by (simp add: hash_step_def)
  then show ?case
    using Cons.IH by (simp add: recipe_round_def)
qed

lemma uint_shift: "drop_bit n (uint (w::32 word)) = uint (drop_bit n w)"
proof -
  have "take_bit 32 (uint w) = uint w"
    using unsigned_take_bit_eq [of 32 w, where ?'a = int] by (simp add: take_bit_word_eq_self)
  then show ?thesis by (simp add: unsigned_drop_bit_eq)
qed

lemma final_rel:
  "(((uint (x::32 word) XOR drop_bit 16 (uint x)) * 2246822507)
      XOR ((uint (y::32 word) XOR drop_bit 13 (uint y)) * 3266489909)) AND 0xFFFFFFFF
   = uint (((x XOR drop_bit 16 x) * 2246822507) XOR ((y XOR drop_bit 13 y) * 3266489909))"
proof -
  have "((x XOR drop_bit 16 x) * 2246822507) XOR ((y XOR drop_bit 13 y) * 3266489909)
        = word_of_int (((uint x XOR drop_bit 16 (uint x)) * 2246822507)
            XOR ((uint y XOR drop_bit 13 (uint y)) * 3266489909))"
    by (simp add: of_int_xor_eq uint_shift)
  then show ?thesis by (simp only: uint_of_int32)
qed

lemma hex_digits_small: "n < 16 \<Longrightarrow> hex_digits n = [hexchar n]"
  by (simp add: hex_digits.simps)

lemma hex_digits_large:
  "\<not> n < 16 \<Longrightarrow> hex_digits n = hex_digits (n div 16) @ [hexchar (n mod 16)]"
  by (subst hex_digits.simps) simp

lemma length_hex_digits: "n < 16 ^ Suc k \<Longrightarrow> length (hex_digits n) \<le> Suc k"
proof (induction k arbitrary: n)
  case 0
  then show ?case by (simp add: hex_digits_small)
next
  case (Suc k)
  show ?case
  proof (cases "n < 16")
    case True
    then show ?thesis by (simp add: hex_digits_small)
  next
    case False
    have "n div 16 < 16 ^ Suc k"
      using Suc.prems by (simp add: less_mult_imp_div_less mult.commute)
    then show ?thesis
      using Suc.IH [of "n div 16"] False by (simp add: hex_digits_large)
  qed
qed

text \<open>The \<open>k\<close> low hexadecimal digits of \<open>n\<close>, the most significant first.\<close>

definition low_hex :: "nat \<Rightarrow> nat \<Rightarrow> string" where
  "low_hex k n = map (\<lambda>i. hexchar (n div 16 ^ i mod 16)) (rev [0..<k])"

lemma low_hex_Suc: "low_hex (Suc k) n = low_hex k (n div 16) @ [hexchar (n mod 16)]"
proof -
  have "[0..<Suc k] = 0 # map Suc [0..<k]"
    by (simp add: upt_conv_Cons map_Suc_upt del: upt_Suc)
  then show ?thesis
    by (simp add: low_hex_def rev_map div_mult2_eq del: upt_Suc)
qed

lemma low_hex_zero: "low_hex k 0 = replicate k (CHR ''0'')"
  by (induction k) (simp_all add: low_hex_def hexchar_def replicate_append_same)

lemma padded_hex:
  "n < 16 ^ Suc k \<Longrightarrow>
   replicate (Suc k - length (hex_digits n)) (CHR ''0'') @ hex_digits n = low_hex (Suc k) n"
proof (induction k arbitrary: n)
  case 0
  then show ?case by (simp add: hex_digits_small low_hex_def)
next
  case (Suc k)
  show ?case
  proof (cases "n < 16")
    case True
    then show ?thesis
      by (simp add: hex_digits_small low_hex_Suc [of "Suc k"] low_hex_zero replicate_append_same)
  next
    case False
    have lt: "n div 16 < 16 ^ Suc k"
      using Suc.prems by (simp add: less_mult_imp_div_less mult.commute)
    have len: "length (hex_digits (n div 16)) \<le> Suc k"
      using lt by (rule length_hex_digits)
    have "replicate (Suc (Suc k) - length (hex_digits n)) (CHR ''0'') @ hex_digits n
          = (replicate (Suc k - length (hex_digits (n div 16))) (CHR ''0'') @ hex_digits (n div 16))
             @ [hexchar (n mod 16)]"
      using False by (simp add: hex_digits_large)
    also have "\<dots> = low_hex (Suc k) (n div 16) @ [hexchar (n mod 16)]"
      using Suc.IH [OF lt] by simp
    finally show ?thesis
      by (simp add: low_hex_Suc [of "Suc k"])
  qed
qed

lemma and15: "(n::nat) AND 15 = n mod 16"
  using take_bit_eq_mask [of 4 n] by (simp add: mask_eq_exp_minus_1 take_bit_eq_mod)

lemma nibble: "unat (drop_bit (4 * i) (w::32 word) AND 15) = unat w div 16 ^ i mod 16"
proof -
  have "unat (drop_bit (4 * i) w AND 15) = drop_bit (4 * i) (unat w) mod 16"
    by (simp add: unsigned_and_eq unat_drop_bit_eq and15)
  also have "\<dots> = unat w div 16 ^ i mod 16"
    by (simp add: drop_bit_eq_div power_mult)
  finally show ?thesis .
qed

lemma rev_upt8: "rev [0..<8] = [7, 6, 5, 4, 3, 2, 1, 0::nat]"
  by code_simp

lemma format_rel: "format_08x (uint (w::32 word)) = recipe_hex w"
proof -
  have "unat w < 16 ^ Suc 7"
    using unsigned_less [of w, where ?'a = nat] by simp
  then have "replicate (Suc 7 - length (hex_digits (unat w))) (CHR ''0'') @ hex_digits (unat w)
             = low_hex (Suc 7) (unat w)"
    by (rule padded_hex)
  moreover have "low_hex (Suc 7) (unat w) = recipe_hex w"
    by (simp add: low_hex_def recipe_hex_def nibble rev_upt8)
  ultimately show ?thesis
    by (simp add: format_08x_def)
qed

text \<open>
  Claim C2. For every input, \<open>stable_hash\<close> returns exactly the sixteen hexadecimal digits
  of the reference recipe: the two accumulators start at 0xDEADBEEF and 0x41C6CE57, every
  unit of the string goes through the two xor-multiply rounds modulo \<open>2^32\<close>, \<open>h1\<close> is
  finalised from the accumulated pair, \<open>h2\<close> by the same statement with the two names
  exchanged, and the output is the digits of \<open>h2\<close> followed by those of \<open>h1\<close>. The first
  conjunct holds for every sequence of code points, the second is the function on strings.
\<close>

theorem stable_hash_is_recipe:
  "stable_hash_units units = recipe_hash units \<and> stable_hash s = recipe_hash (map of_char s)"
proof -
  have "stable_hash_units us = recipe_hash us" for us
  proof -
    obtain x y where xy: "foldl recipe_round (0xDEADBEEF, 0x41C6CE57) us = (x, y)"
      by (cases "foldl recipe_round (0xDEADBEEF, 0x41C6CE57) us")
    have fh: "foldl hash_step (0xDEADBEEF, 0x41C6CE57) us = (uint x, uint y)"
      using foldl_rel [of "0xDEADBEEF" "0x41C6CE57" us] by (simp add: xy)
    show ?thesis
      unfolding stable_hash_units_def recipe_hash_def fh xy
      by (simp only: Let_def prod.case final_rel format_rel)
  qed
  then show ?thesis by (simp add: stable_hash_def)
qed

section \<open>Banks keep their invariant\<close>

lemma nonempty_None [simp]: "nonempty s = None \<longleftrightarrow> s = []"
  by (simp add: nonempty_def)

lemma nonempty_Some [simp]: "nonempty s = Some m \<longleftrightarrow> s \<noteq> [] \<and> m = s"
  by (auto simp: nonempty_def)

lemma matched_exact_None:
  "(\<forall>h m. map_of (exact_hash_map st) h = Some m \<longrightarrow> m \<noteq> []) \<Longrightarrow>
   matched_exact st q = None \<longleftrightarrow> map_of (exact_hash_map st) (exact_hash (fingerprints q)) = None"
  by (auto simp: matched_exact_def split: option.splits)

lemma matched_exact_Some:
  "matched_exact st q = Some m \<longleftrightarrow>
     map_of (exact_hash_map st) (exact_hash (fingerprints q)) = Some m \<and> m \<noteq> []"
  by (auto simp: matched_exact_def split: option.splits)

lemma store_question_fields:
  assumes "store_question st q = Inr st'"
  shows "docs st' = AList.update (qid q) q (docs st)"
    and "exact_hash_map st' = AList.update (exact_hash (fingerprints q)) (qid q) (exact_hash_map st)"
    and "map_of (vectors st') (qid q) \<noteq> None"
    and "\<And>k. k \<noteq> qid q \<Longrightarrow> map_of (vectors st') k = map_of (vectors st) k"
    and "config st' = config st" and "embedder st' = embedder st"
    and "stem_index st' = stem_index st" and "explanation_index st' = explanation_index st"
    and "image_index st' = image_index st" and "image_owner st' = image_owner st"
    and "bm25 st' = bm25 st"
  using assms
  by (auto simp: store_question_def Let_def update_conv' split: sum.splits if_splits)

lemma store_question_inv:
  assumes inv: "bank_inv st" and q: "qid q \<noteq> []" and m: "matched_exact st q = None"
    and s: "store_question st q = Inr st'"
  shows "bank_inv st'"
proof -
  note f = store_question_fields [OF s]
  have none: "map_of (exact_hash_map st) (exact_hash (fingerprints q)) = None"
    using inv m by (simp add: bank_inv_def matched_exact_None)
  have old: "qid d = k \<and> k \<noteq> []
      \<and> map_of (exact_hash_map st) (exact_hash (fingerprints d)) = Some k
      \<and> map_of (vectors st) k \<noteq> None" if "map_of (docs st) k = Some d" for k d
    using inv that unfolding bank_inv_def by blast
  show ?thesis
    unfolding bank_inv_def
  proof (intro conjI)
    show "distinct (map fst (docs st'))"
      using inv by (simp add: f(1) bank_inv_def distinct_update)
  next
    show "\<forall>k d. map_of (docs st') k = Some d \<longrightarrow> qid d = k \<and> k \<noteq> []
      \<and> map_of (exact_hash_map st') (exact_hash (fingerprints d)) = Some k
      \<and> map_of (vectors st') k \<noteq> None"
    proof (intro allI impI)
    fix k d assume kd: "map_of (docs st') k = Some d"
    show "qid d = k \<and> k \<noteq> []
      \<and> map_of (exact_hash_map st') (exact_hash (fingerprints d)) = Some k
      \<and> map_of (vectors st') k \<noteq> None"
    proof (cases "k = qid q")
      case True
      then have "d = q" using kd by (simp add: f(1) update_conv')
      then show ?thesis using True q f(3) by (simp add: f(2) update_conv')
    next
      case False
      then have o: "map_of (docs st) k = Some d" using kd by (simp add: f(1) update_conv')
      have "exact_hash (fingerprints d) \<noteq> exact_hash (fingerprints q)"
        using old [OF o] none by auto
      then show ?thesis using old [OF o] False f(4) [OF False] by (simp add: f(2) update_conv')
    qed
    qed
  next
    have "m' \<noteq> []" if "map_of (exact_hash_map st') h = Some m'" for h m'
    proof (cases "h = exact_hash (fingerprints q)")
      case True
      then show ?thesis using that q by (simp add: f(2) update_conv')
    next
      case False
      then have "map_of (exact_hash_map st) h = Some m'" using that by (simp add: f(2) update_conv')
      then show ?thesis using inv unfolding bank_inv_def by blast
    qed
    then show "\<forall>h m. map_of (exact_hash_map st') h = Some m \<longrightarrow> m \<noteq> []" by blast
  qed
qed

lemma ingest_loop_inv:
  "bank_inv st \<Longrightarrow> list_all (\<lambda>q. qid q \<noteq> []) qs \<Longrightarrow>
   ingest_loop ev st qs out = Inr (out', st') \<Longrightarrow> bank_inv st'"
proof (induction qs arbitrary: st out)
  case Nil
  then show ?case by simp
next
  case (Cons q qs)
  show ?case
  proof (cases "matched_exact st q")
    case (Some m)
    then show ?thesis using Cons by simp
  next
    case None
    from Cons.prems(3) None obtain near st1 where
      s: "store_question st q = Inr st1"
      and l: "ingest_loop ev st1 qs (out @ [dedup_result st q near]) = Inr (out', st')"
      by (auto split: sum.splits)
    have "qid q \<noteq> []" using Cons.prems(2) by simp
    then have "bank_inv st1"
      using Cons.prems(1) None s store_question_inv by blast
    moreover have "list_all (\<lambda>q. qid q \<noteq> []) qs" using Cons.prems(2) by simp
    ultimately show ?thesis
      using l by (rule Cons.IH)
  qed
qed

lemma doc_vectors_returns:
  "list_all (\<lambda>d. map_of vs (qid d) \<noteq> None) ds \<Longrightarrow> \<exists>r. doc_vectors vs ds = Inr r"
  by (induction ds) (auto split: option.splits)

lemma rebuild_indexes_fields:
  assumes "rebuild_indexes ev st = Inr st'"
  shows "docs st' = docs st" "vectors st' = vectors st" "exact_hash_map st' = exact_hash_map st"
    "template_hash_map st' = template_hash_map st" "config st' = config st"
    "embedder st' = embedder st"
  using assms by (auto simp: rebuild_indexes_def Let_def split: sum.splits)

lemma rebuild_indexes_inv: "bank_inv st \<Longrightarrow> rebuild_indexes ev st = Inr st' \<Longrightarrow> bank_inv st'"
  by (simp add: bank_inv_def rebuild_indexes_fields)

lemma bank_inv_values:
  assumes "bank_inv st" "d \<in> set (map snd (docs st))"
  shows "map_of (docs st) (qid d) = Some d"
proof -
  from assms(2) obtain k where "(k, d) \<in> set (docs st)" by auto
  then have "map_of (docs st) k = Some d"
    using assms(1) by (simp add: bank_inv_def)
  then show ?thesis using assms(1) by (auto simp: bank_inv_def)
qed

lemma rebuild_indexes_Inr:
  "doc_vectors (vectors st) (map snd (docs st)) = Inr r \<Longrightarrow> \<exists>st'. rebuild_indexes ev st = Inr st'"
  unfolding rebuild_indexes_def by (simp only: Let_def sum.case) blast

lemma bank_inv_vectors:
  assumes "bank_inv st" "map_of (docs st) k = Some d"
  shows "map_of (vectors st) k \<noteq> None"
  using assms unfolding bank_inv_def by blast

lemma rebuild_indexes_returns:
  assumes "bank_inv st"
  shows "\<exists>st'. rebuild_indexes ev st = Inr st'"
proof -
  have "map_of (vectors st) (qid d) \<noteq> None" if "d \<in> set (map snd (docs st))" for d
    using bank_inv_vectors [OF assms bank_inv_values [OF assms that]] .
  then have "list_all (\<lambda>d. map_of (vectors st) (qid d) \<noteq> None) (map snd (docs st))"
    unfolding list_all_iff by (rule ballI)
  then have "\<exists>r. doc_vectors (vectors st) (map snd (docs st)) = Inr r"
    by (rule doc_vectors_returns)
  then show ?thesis using rebuild_indexes_Inr by (elim exE)
qed

lemma str_int_nonempty: "str_int i \<noteq> []"
  by (simp add: str_int_def dec_digits.simps [of "nat i"])

lemma normalize_row_qid:
  assumes "normalize_row emb i row = Inr d"
  shows "qid d \<noteq> []"
proof -
  define q where "q = (if str_true (k_qid row) then the (k_qid row)
               else (case k_id row of
                       Some n \<Rightarrow> ''q_'' @ str_int n
                     | None \<Rightarrow> ''q_'' @ stable_hash (resolve_stem row @ '':'' @ str_int (int i))))"
  have "q \<noteq> []"
    by (cases "k_qid row"; cases "k_id row") (simp_all add: q_def str_true_def)
  moreover have "qid d = q"
    using assms unfolding normalize_row_def Let_def q_def [symmetric]
    by (cases "normalize_images emb q 0 (k_images row)") auto
  ultimately show ?thesis by simp
qed

lemma normalize_rows_qid:
  "normalize_rows emb i rows = Inr ds \<Longrightarrow> list_all (\<lambda>q. qid q \<noteq> []) ds"
proof (induction rows arbitrary: i ds)
  case Nil
  then show ?case by simp
next
  case (Cons r rs)
  then show ?case
    by (auto split: sum.splits dest: normalize_row_qid)
qed

lemma normalize_input_qid:
  "normalize_input ev emb payload = Inr ds \<Longrightarrow> list_all (\<lambda>q. qid q \<noteq> []) ds"
  by (auto simp: normalize_input_def normalize_parsed_def list_all_iff
      split: sum.splits dest!: normalize_rows_qid)

lemma ingest_inv:
  assumes "bank_inv st" "ingest ev st payload = Inr (out, st')"
  shows "bank_inv st'"
proof -
  from assms(2) obtain qs st1 where
    n: "normalize_input ev (embedder st) payload = Inr qs"
    and l: "ingest_loop ev st qs [] = Inr (out, st1)"
    and r: "rebuild_indexes ev st1 = Inr st'"
    by (auto simp: ingest_def split: sum.splits prod.splits)
  have "bank_inv st1"
    using assms(1) normalize_input_qid [OF n] l by (rule ingest_loop_inv)
  then show ?thesis using r by (rule rebuild_indexes_inv)
qed

lemma bank_inv_new: "bank_inv (new_engine cfg emb)"
  by (simp add: bank_inv_def new_engine_def Let_def)

lemma bank_inv_reset:
  "bank_inv (st\<lparr>docs := [], vectors := [], exact_hash_map := [], template_hash_map := []\<rparr>)"
  by (simp add: bank_inv_def)

lemma load_local_bank_inv:
  assumes "bank_inv st" "load_local_bank ev st p fs = Inr (n, st')"
  shows "bank_inv st'"
  using assms bank_inv_reset [of st] ingest_inv
  by (auto simp: load_local_bank_def Let_def split: if_splits sum.splits prod.splits)

lemma bank_bank_inv: "bank ev st \<Longrightarrow> bank_inv st"
  by (induction rule: bank.induct) (auto intro: bank_inv_new ingest_inv load_local_bank_inv)

section \<open>The ingestion loop\<close>

lemma ingest_loop_acc:
  "ingest_loop ev st qs out =
     (case ingest_loop ev st qs [] of Inl e \<Rightarrow> Inl e | Inr (rs, s) \<Rightarrow> Inr (out @ rs, s))"
proof (induction qs arbitrary: st out)
  case Nil
  then show ?case by simp
next
  case (Cons q qs)
  show ?case
  proof (cases "matched_exact st q")
    case (Some m)
    then show ?thesis
      using Cons.IH [of st "out @ [\<lparr>question = q, status = ''exact-duplicate'', matched_qid = Some m, score = Some 1\<rparr>]"]
        Cons.IH [of st "[\<lparr>question = q, status = ''exact-duplicate'', matched_qid = Some m, score = Some 1\<rparr>]"]
      by (simp split: sum.splits prod.splits)
  next
    case None
    show ?thesis
    proof (cases "find_near_duplicate ev st q")
      case (Inl e)
      then show ?thesis using None by simp
    next
      case (Inr near)
      show ?thesis
      proof (cases "store_question st q")
        case (Inl e)
        then show ?thesis using None Inr by simp
      next
        case st1: (Inr st1)
        show ?thesis
          using None Inr st1 Cons.IH [of st1 "out @ [dedup_result st q near]"]
            Cons.IH [of st1 "[dedup_result st q near]"]
          by (simp split: sum.splits prod.splits)
      qed
    qed
  qed
qed

text \<open>One round of the loop, read off a run that returns.\<close>

lemma ingest_loop_Cons:
  assumes "ingest_loop ev st (q # qs) [] = Inr (rs, st')"
  obtains (dup) m rs' where "matched_exact st q = Some m"
      "rs = \<lparr>question = q, status = ''exact-duplicate'', matched_qid = Some m, score = Some 1\<rparr> # rs'"
      "ingest_loop ev st qs [] = Inr (rs', st')"
  | (store) near st1 rs' where "matched_exact st q = None"
      "find_near_duplicate ev st q = Inr near" "store_question st q = Inr st1"
      "rs = dedup_result st q near # rs'" "ingest_loop ev st1 qs [] = Inr (rs', st')"
proof (cases "matched_exact st q")
  case (Some m)
  let ?r = "\<lparr>question = q, status = ''exact-duplicate'', matched_qid = Some m, score = Some 1\<rparr>"
  from assms Some have "ingest_loop ev st qs [?r] = Inr (rs, st')" by simp
  then obtain rs' where "ingest_loop ev st qs [] = Inr (rs', st')" "rs = ?r # rs'"
    by (subst (asm) ingest_loop_acc) (auto split: sum.splits)
  then show ?thesis using Some dup by blast
next
  case None
  from assms None obtain near st1 where
    n: "find_near_duplicate ev st q = Inr near" and s: "store_question st q = Inr st1"
    and l: "ingest_loop ev st1 qs [dedup_result st q near] = Inr (rs, st')"
    by (auto split: sum.splits)
  from l obtain rs' where "ingest_loop ev st1 qs [] = Inr (rs', st')" "rs = dedup_result st q near # rs'"
    by (subst (asm) ingest_loop_acc) (auto split: sum.splits)
  then show ?thesis using None n s store by blast
qed

lemma ingest_loop_append:
  "ingest_loop ev st (xs @ ys) [] =
     (case ingest_loop ev st xs [] of
        Inl e \<Rightarrow> Inl e
      | Inr (rs, s) \<Rightarrow>
          (case ingest_loop ev s ys [] of Inl e \<Rightarrow> Inl e | Inr (rs', s') \<Rightarrow> Inr (rs @ rs', s')))"
proof (induction xs arbitrary: st)
  case Nil
  then show ?case by (simp split: sum.splits)
next
  case (Cons q xs)
  show ?case
  proof (cases "matched_exact st q")
    case (Some m)
    then show ?thesis
      using Cons.IH [of st]
      by (simp add: ingest_loop_acc [of _ _ _ "[_]"] split: sum.splits prod.splits)
  next
    case None
    then show ?thesis
      using Cons.IH
      by (simp add: ingest_loop_acc [of _ _ _ "[_]"] split: sum.splits prod.splits)
  qed
qed

lemma dedup_result_status [simp]:
  "status (dedup_result st q near) \<noteq> ''exact-duplicate''"
  "question (dedup_result st q near) = q"
  by (auto simp: dedup_result_def split: option.splits)

lemma ingest_loop_length:
  "ingest_loop ev st qs [] = Inr (rs, st') \<Longrightarrow> length rs = length qs"
proof (induction qs arbitrary: st rs)
  case Nil
  then show ?case by simp
next
  case (Cons q qs)
  from Cons.prems show ?case
    by (cases rule: ingest_loop_Cons) (auto dest: Cons.IH)
qed

lemma ingest_loop_question:
  "ingest_loop ev st qs [] = Inr (rs, st') \<Longrightarrow> map question rs = qs"
proof (induction qs arbitrary: st rs)
  case Nil
  then show ?case by simp
next
  case (Cons q qs)
  from Cons.prems show ?case
    by (cases rule: ingest_loop_Cons) (auto dest: Cons.IH)
qed

subsection \<open>Documents under other qids are left alone\<close>

lemma ingest_loop_frame:
  "ingest_loop ev st qs [] = Inr (rs, st') \<Longrightarrow> map_of (docs st) k = Some d \<Longrightarrow>
   list_all (\<lambda>r. status r = ''exact-duplicate'' \<or> qid (question r) \<noteq> k) rs \<Longrightarrow>
   map_of (docs st') k = Some d"
proof (induction qs arbitrary: st rs)
  case Nil
  then show ?case by simp
next
  case (Cons q qs)
  from Cons.prems(1) show ?case
  proof (cases rule: ingest_loop_Cons)
    case (dup m rs')
    then show ?thesis using Cons.IH [of st rs'] Cons.prems(2,3) by simp
  next
    case (store near st1 rs')
    have "qid q \<noteq> k" using Cons.prems(3) store(4) by simp
    then have "map_of (docs st1) k = Some d"
      using Cons.prems(2) by (simp add: store_question_fields(1) [OF store(3)] update_conv')
    then show ?thesis using Cons.IH [of st1 rs'] store Cons.prems(3) by simp
  qed
qed

lemma ingest_loop_present:
  "ingest_loop ev st qs [] = Inr (rs, st') \<Longrightarrow> map_of (docs st) k \<noteq> None \<Longrightarrow>
   map_of (docs st') k \<noteq> None"
proof (induction qs arbitrary: st rs)
  case Nil
  then show ?case by simp
next
  case (Cons q qs)
  from Cons.prems(1) show ?case
  proof (cases rule: ingest_loop_Cons)
    case (dup m rs')
    then show ?thesis using Cons.IH [of st rs'] Cons.prems(2) by simp
  next
    case (store near st1 rs')
    have "map_of (docs st1) k \<noteq> None"
      using Cons.prems(2) by (simp add: store_question_fields(1) [OF store(3)] update_conv')
    then show ?thesis using Cons.IH [of st1 rs'] store by simp
  qed
qed

lemma ingest_split:
  assumes "ingest ev st payload = Inr (out, st')"
  obtains qs st1 where "normalize_input ev (embedder st) payload = Inr qs"
    "ingest_loop ev st qs [] = Inr (out, st1)" "rebuild_indexes ev st1 = Inr st'"
  using assms by (auto simp: ingest_def split: sum.splits prod.splits)

subsection \<open>The exact-hash map is consulted live\<close>

lemma ingest_loop_keeps_hash:
  "ingest_loop ev st qs [] = Inr (rs, st') \<Longrightarrow> map_of (exact_hash_map st) h = Some m \<Longrightarrow>
   m \<noteq> [] \<Longrightarrow> map_of (exact_hash_map st') h = Some m"
proof (induction qs arbitrary: st rs)
  case Nil
  then show ?case by simp
next
  case (Cons q qs)
  from Cons.prems(1) show ?case
  proof (cases rule: ingest_loop_Cons)
    case (dup m' rs')
    then show ?thesis using Cons.IH [of st rs'] Cons.prems(2,3) by simp
  next
    case (store near st1 rs')
    have "exact_hash (fingerprints q) \<noteq> h"
      using store(1) Cons.prems(2,3) by (auto simp: matched_exact_def)
    then have "map_of (exact_hash_map st1) h = Some m"
      using Cons.prems(2) by (simp add: store_question_fields(2) [OF store(3)] update_conv')
    then show ?thesis using Cons.IH [of st1 rs'] store Cons.prems(3) by simp
  qed
qed

lemma ingest_loop_known_hash:
  "ingest_loop ev st qs [] = Inr (rs, st') \<Longrightarrow> j < length qs \<Longrightarrow>
   map_of (exact_hash_map st) (exact_hash (fingerprints (qs ! j))) = Some m \<Longrightarrow> m \<noteq> [] \<Longrightarrow>
   rs ! j = \<lparr>question = qs ! j, status = ''exact-duplicate'', matched_qid = Some m, score = Some 1\<rparr>"
proof (induction qs arbitrary: st rs j)
  case Nil
  then show ?case by simp
next
  case (Cons q qs)
  from Cons.prems(1) show ?case
  proof (cases rule: ingest_loop_Cons)
    case (dup m' rs')
    show ?thesis
    proof (cases j)
      case 0
      then show ?thesis using dup Cons.prems(3,4) by (simp add: matched_exact_Some)
    next
      case (Suc j')
      then show ?thesis using dup Cons.IH [of st rs' j'] Cons.prems(2,3,4) by simp
    qed
  next
    case (store near st1 rs')
    show ?thesis
    proof (cases j)
      case 0
      then show ?thesis using store(1) Cons.prems(3,4) by (simp add: matched_exact_def)
    next
      case (Suc j')
      have "exact_hash (fingerprints q) \<noteq> exact_hash (fingerprints (qs ! j'))"
        using store(1) Cons.prems(3,4) Suc by (auto simp: matched_exact_def)
      then have "map_of (exact_hash_map st1) (exact_hash (fingerprints (qs ! j'))) = Some m"
        using Cons.prems(3) Suc by (simp add: store_question_fields(2) [OF store(3)] update_conv')
      then show ?thesis using store Cons.IH [of st1 rs' j'] Cons.prems(2,4) Suc by simp
    qed
  qed
qed

lemma ingest_loop_shared_hash:
  "ingest_loop ev st qs [] = Inr (rs, st') \<Longrightarrow> list_all (\<lambda>q. qid q \<noteq> []) qs \<Longrightarrow>
   i < j \<Longrightarrow> j < length qs \<Longrightarrow>
   exact_hash (fingerprints (qs ! i)) = exact_hash (fingerprints (qs ! j)) \<Longrightarrow>
   rs ! j = \<lparr>question = qs ! j, status = ''exact-duplicate'',
             matched_qid = (if status (rs ! i) = ''exact-duplicate'' then matched_qid (rs ! i)
                            else Some (qid (qs ! i))),
             score = Some 1\<rparr>"
proof (induction qs arbitrary: st rs i j)
  case Nil
  then show ?case by simp
next
  case (Cons q qs)
  obtain j' where j: "j = Suc j'" using Cons.prems(3) by (cases j) auto
  from Cons.prems(1) show ?case
  proof (cases rule: ingest_loop_Cons)
    case (dup m rs')
    show ?thesis
    proof (cases i)
      case 0
      have "map_of (exact_hash_map st) (exact_hash (fingerprints (qs ! j'))) = Some m" "m \<noteq> []"
        using dup(1) Cons.prems(5) 0 j by (simp_all add: matched_exact_Some)
      then show ?thesis
        using ingest_loop_known_hash [OF dup(3), of j' m] Cons.prems(4) 0 j dup(2) by simp
    next
      case (Suc i')
      then show ?thesis
        using dup Cons.IH [of st rs' i' j'] Cons.prems(2,3,4,5) j by simp
    qed
  next
    case (store near st1 rs')
    show ?thesis
    proof (cases i)
      case 0
      have "map_of (exact_hash_map st1) (exact_hash (fingerprints (qs ! j'))) = Some (qid q)"
        using Cons.prems(5) 0 j by (simp add: store_question_fields(2) [OF store(3)] update_conv')
      moreover have "qid q \<noteq> []" using Cons.prems(2) by simp
      ultimately show ?thesis
        using ingest_loop_known_hash [OF store(5), of j' "qid q"] Cons.prems(4) 0 j store(4) by simp
    next
      case (Suc i')
      then show ?thesis
        using store Cons.IH [of st1 rs' i' j'] Cons.prems(2,3,4,5) j by simp
    qed
  qed
qed

text \<open>A row that is reported as an exact duplicate leaves the engine as it was.\<close>

lemma ingest_loop_duplicate_not_stored:
  "ingest_loop ev st qs [] = Inr (rs, st') \<Longrightarrow> n < length qs \<Longrightarrow>
   status (rs ! n) = ''exact-duplicate'' \<Longrightarrow>
   \<exists>done s. ingest_loop ev st (take n qs) [] = Inr (done, s)
     \<and> ingest_loop ev st (take (Suc n) qs) [] = Inr (done @ [rs ! n], s)"
proof (induction qs arbitrary: st rs n)
  case Nil
  then show ?case by simp
next
  case (Cons q qs)
  from Cons.prems(1) show ?case
  proof (cases rule: ingest_loop_Cons)
    case (dup m rs')
    show ?thesis
    proof (cases n)
      case 0
      then show ?thesis using dup by simp
    next
      case (Suc n')
      then obtain dn s where
        "ingest_loop ev st (take n' qs) [] = Inr (dn, s)"
        "ingest_loop ev st (take (Suc n') qs) [] = Inr (dn @ [rs' ! n'], s)"
        using Cons.IH [OF dup(3), of n'] Cons.prems(2,3) dup(2) by auto
      then show ?thesis
        using dup(1,2) Suc
        by (simp add: ingest_loop_acc [of _ _ _ "[_]"] del: ingest_loop.simps(2) take_Suc_Cons)
          (simp add: ingest_loop_acc [of _ _ _ "[_]"])
    qed
  next
    case (store near st1 rs')
    show ?thesis
    proof (cases n)
      case 0
      then show ?thesis using store Cons.prems(3) by simp
    next
      case (Suc n')
      then obtain dn s where
        "ingest_loop ev st1 (take n' qs) [] = Inr (dn, s)"
        "ingest_loop ev st1 (take (Suc n') qs) [] = Inr (dn @ [rs' ! n'], s)"
        using Cons.IH [OF store(5), of n'] Cons.prems(2,3) store(4) by auto
      then show ?thesis
        using store(1,2,3,4) Suc
        by (simp add: ingest_loop_acc [of _ _ _ "[_]"])
    qed
  qed
qed

section \<open>Evaluation of the examples\<close>

lemma unit_embedder_apply: "unit_embedder s = Inr [1]"
  by (simp add: unit_embedder_def)

lemmas text_eval =
  normalize_text_def normalize_template_text_def strip_def is_space_def lower_char_def
  is_az09_def is_digit_def stable_hash_def stable_hash_units_def hash_step_def format_08x_def
  hexchar_def hex_digits_small hex_digits_large build_exact_hash_def build_template_hash_def

lemmas row_eval =
  normalize_row_def resolve_stem_def str_true_def normalize_options_def resolve_explanation_def
  normalize_answer_def normalize_metadata_def set_default_def blank_row_def plain_doc_def
  unit_embedder_apply Let_def

lemma normalize_rows_eval:
  "normalize_row unit_embedder i row_a = Inr doc_a"
  "normalize_row unit_embedder i row_b = Inr doc_b"
  "normalize_row unit_embedder i row_c = Inr doc_c"
  "normalize_row unit_embedder i row_a2 = Inr doc_a2"
  by (simp_all add: row_eval text_eval doc_a_def doc_b_def doc_c_def doc_a2_def
      row_a_def row_b_def row_c_def row_a2_def)

lemmas ingest_eval =
  ingest_def normalize_input_def questions_only_def normalize_rows_eval new_engine_def
  test_env_def matched_exact_def find_near_duplicate_def unit_embedder_apply search_def
  search_heap_def store_question_def dedup_result_def rebuild_indexes_def doc_a_def doc_b_def
  doc_c_def doc_a2_def plain_doc_def bank_a_def bank_a2_def newline_def get_or_def str_true_def
  upsert_def image_rows_def cosine_similarity_def l2_norm_def dot_def default_config_def
  exact_duplicate_of_def nonempty_def Let_def

lemma ingest_a: "ingest test_env (new_engine None (Some unit_embedder)) (questions_only [row_a])
   = Inr ([\<lparr>question = doc_a, status = ''new'', matched_qid = None, score = None\<rparr>], bank_a)"
  by (simp add: ingest_eval)

lemma ingest_ab: "ingest test_env (new_engine None (Some unit_embedder)) (questions_only [row_a, row_b])
   = Inr ([\<lparr>question = doc_a, status = ''new'', matched_qid = None, score = None\<rparr>,
           exact_duplicate_of doc_b ''a''], bank_a)"
  by (simp add: ingest_eval)

lemma ingest_b: "ingest test_env bank_a (questions_only [row_b])
   = Inr ([exact_duplicate_of doc_b ''a''], bank_a)"
  by (simp add: ingest_eval)

lemma ingest_bc: "ingest test_env bank_a (questions_only [row_b, row_c])
   = Inr ([exact_duplicate_of doc_b ''a'', exact_duplicate_of doc_c ''a''], bank_a)"
  by (simp add: ingest_eval)

lemma ingest_a2: "ingest test_env bank_a (questions_only [row_a2])
   = Inr ([\<lparr>question = doc_a2, status = ''near-duplicate'', matched_qid = Some ''a'', score = Some 1\<rparr>],
          bank_a2)"
  by (simp add: ingest_eval)

lemma bank_bank_a: "bank test_env bank_a"
  using bank_ingest [OF bank_new ingest_a] .

lemma ingest_loop_stem_index:
  "ingest_loop ev st qs [] = Inr (rs, st') \<Longrightarrow> stem_index st' = stem_index st"
proof (induction qs arbitrary: st rs)
  case Nil
  then show ?case by simp
next
  case (Cons q qs)
  from Cons.prems show ?case
  proof (cases rule: ingest_loop_Cons)
    case (dup m rs')
    then show ?thesis using Cons.IH by simp
  next
    case (store near st1 rs')
    then show ?thesis using Cons.IH [of st1 rs'] store_question_fields(7) [OF store(3)] by simp
  qed
qed

text \<open>
  Claim C1. For every bank and every document \<open>d\<close> of the bank, ingesting a row whose
  normalised form \<open>q\<close> has the exact hash of \<open>d\<close> returns one result with status
  \<^verbatim>\<open>exact-duplicate\<close>, \<open>matched_qid = d.qid\<close> and score 1, and leaves the documents of the
  bank as they were, so their number is the same after the call.
\<close>

theorem exact_duplicate_suppression:
  assumes "bank ev st"
    and "d \<in> set (map snd (docs st))"
    and "normalize_row (embedder st) 0 row = Inr q"
    and "exact_hash (fingerprints q) = exact_hash (fingerprints d)"
  shows "\<exists>st'. ingest ev st \<lparr>version = v, questions = [row], files = []\<rparr>
             = Inr ([\<lparr>question = q, status = ''exact-duplicate'', matched_qid = Some (qid d),
                      score = Some 1\<rparr>], st')
           \<and> docs st' = docs st \<and> length (docs st') = length (docs st)"
proof -
  have inv: "bank_inv st" using assms(1) by (rule bank_bank_inv)
  have d: "map_of (docs st) (qid d) = Some d"
    using inv assms(2) by (rule bank_inv_values)
  then have "map_of (exact_hash_map st) (exact_hash (fingerprints d)) = Some (qid d)" "qid d \<noteq> []"
    using inv unfolding bank_inv_def by blast+
  then have m: "matched_exact st q = Some (qid d)"
    using assms(4) by (simp add: matched_exact_Some)
  have n: "normalize_input ev (embedder st) \<lparr>version = v, questions = [row], files = []\<rparr> = Inr [q]"
    using assms(3) by (simp add: normalize_input_def)
  obtain st' where r: "rebuild_indexes ev st = Inr st'"
    using rebuild_indexes_returns [OF inv] by blast
  have "ingest ev st \<lparr>version = v, questions = [row], files = []\<rparr>
      = Inr ([\<lparr>question = q, status = ''exact-duplicate'', matched_qid = Some (qid d),
               score = Some 1\<rparr>], st')"
    unfolding ingest_def n using m r by simp
  moreover have "docs st' = docs st" using r by (rule rebuild_indexes_fields)
  ultimately show ?thesis by simp
qed

theorem exact_duplicate_suppression_witness:
  "bank test_env bank_a \<and> doc_a \<in> set (map snd (docs bank_a))
   \<and> normalize_row (embedder bank_a) 0 row_b = Inr doc_b
   \<and> exact_hash (fingerprints doc_b) = exact_hash (fingerprints doc_a)
   \<and> (\<exists>st'. ingest test_env bank_a \<lparr>version = None, questions = [row_b], files = []\<rparr>
             = Inr ([\<lparr>question = doc_b, status = ''exact-duplicate'', matched_qid = Some (qid doc_a),
                      score = Some 1\<rparr>], st')
           \<and> docs st' = docs bank_a \<and> length (docs st') = length (docs bank_a))"
proof -
  have 1: "bank test_env bank_a" by (rule bank_bank_a)
  have 2: "doc_a \<in> set (map snd (docs bank_a))" by (simp add: bank_a_def)
  have 3: "normalize_row (embedder bank_a) 0 row_b = Inr doc_b"
    by (simp add: bank_a_def normalize_rows_eval)
  have 4: "exact_hash (fingerprints doc_b) = exact_hash (fingerprints doc_a)"
    by (simp add: doc_a_def doc_b_def plain_doc_def)
  show ?thesis
    using 1 2 3 4 exact_duplicate_suppression [OF 1 2 3 4, of None] by blast
qed

text \<open>
  Claim C8, as stated, fails: a row that reuses a stored qid with other content, and is not
  an exact duplicate, takes the place of the stored document. Here the bank holds the
  document \<open>doc_a\<close> under \<^verbatim>\<open>a\<close>; the row \<open>row_a2\<close> has the qid \<^verbatim>\<open>a\<close> and another stem.
\<close>

theorem stored_document_replaced:
  "bank test_env bank_a \<and> map_of (docs bank_a) ''a'' = Some doc_a
   \<and> ingest test_env bank_a (questions_only [row_a2])
       = Inr ([\<lparr>question = doc_a2, status = ''near-duplicate'', matched_qid = Some ''a'',
                score = Some 1\<rparr>], bank_a2)
   \<and> map_of (docs bank_a2) ''a'' = Some doc_a2 \<and> doc_a2 \<noteq> doc_a"
  using bank_bank_a ingest_a2
  by (simp add: bank_a_def bank_a2_def doc_a_def doc_a2_def plain_doc_def)

text \<open>
  Claim C8, amended. For every qid present before a call of \<open>ingest\<close> that returns, the qid
  is still present after the call, and the document stored under it is unchanged when every
  row of the call that carries this qid was reported as an exact duplicate (such a row is
  not stored).
\<close>

theorem stored_documents_frame:
  assumes "ingest ev st payload = Inr (out, st')"
    and "map_of (docs st) k = Some d"
  shows "map_of (docs st') k \<noteq> None
         \<and> (list_all (\<lambda>r. status r = ''exact-duplicate'' \<or> qid (question r) \<noteq> k) out
              \<longrightarrow> map_of (docs st') k = Some d)"
proof -
  from assms(1) obtain qs st1 where
    l: "ingest_loop ev st qs [] = Inr (out, st1)" and r: "rebuild_indexes ev st1 = Inr st'"
    by (rule ingest_split)
  have e: "docs st' = docs st1" using r by (rule rebuild_indexes_fields)
  have "map_of (docs st1) k \<noteq> None"
    using l assms(2) by (auto dest: ingest_loop_present)
  moreover have "map_of (docs st1) k = Some d"
    if "list_all (\<lambda>r. status r = ''exact-duplicate'' \<or> qid (question r) \<noteq> k) out"
    using l assms(2) that by (rule ingest_loop_frame)
  ultimately show ?thesis by (simp add: e)
qed

theorem stored_documents_frame_witness:
  "ingest test_env bank_a (questions_only [row_b, row_c])
     = Inr ([exact_duplicate_of doc_b ''a'', exact_duplicate_of doc_c ''a''], bank_a)
   \<and> map_of (docs bank_a) ''a'' = Some doc_a
   \<and> list_all (\<lambda>r. status r = ''exact-duplicate'' \<or> qid (question r) \<noteq> ''a'')
        [exact_duplicate_of doc_b ''a'', exact_duplicate_of doc_c ''a'']
   \<and> map_of (docs bank_a) ''a'' \<noteq> None"
proof -
  have 1: "map_of (docs bank_a) ''a'' = Some doc_a" by (simp add: bank_a_def)
  have 2: "list_all (\<lambda>r. status r = ''exact-duplicate'' \<or> qid (question r) \<noteq> ''a'')
        [exact_duplicate_of doc_b ''a'', exact_duplicate_of doc_c ''a'']"
    by (simp add: exact_duplicate_of_def)
  show ?thesis
    using stored_documents_frame [OF ingest_bc 1] ingest_bc 1 2 by blast
qed

text \<open>
  Claim C10, as stated, fails where the shared hash is already in the map when the earlier
  row is reached: both rows are then duplicates of the document that owns the hash. The
  bank holds \<open>doc_a\<close>; the rows \<open>row_b\<close> and \<open>row_c\<close> of one batch have its content. The later
  row is matched to \<^verbatim>\<open>a\<close>, not to the earlier row's qid \<^verbatim>\<open>b\<close>.
\<close>

theorem later_row_matched_to_owner:
  "bank test_env bank_a
   \<and> normalize_input test_env (embedder bank_a) (questions_only [row_b, row_c]) = Inr [doc_b, doc_c]
   \<and> exact_hash (fingerprints doc_b) = exact_hash (fingerprints doc_c)
   \<and> ingest test_env bank_a (questions_only [row_b, row_c])
       = Inr ([exact_duplicate_of doc_b ''a'', exact_duplicate_of doc_c ''a''], bank_a)
   \<and> matched_qid (exact_duplicate_of doc_c ''a'') = Some ''a'' \<and> qid doc_b = ''b''"
  using bank_bank_a ingest_bc
  by (simp add: normalize_input_def questions_only_def normalize_rows_eval bank_a_def
      test_env_def doc_b_def doc_c_def plain_doc_def exact_duplicate_of_def)

text \<open>
  Claim C10, amended. If two rows of one batch share an exact hash, the later row is
  reported as an exact duplicate with score 1 and is not stored: the engine is the same
  before and after its round of the loop. Its \<open>matched_qid\<close> is the qid of the earlier row
  when the earlier row was stored, and the \<open>matched_qid\<close> of the earlier row when that row
  was an exact duplicate itself. The stem index that the near-duplicate check reads during
  the batch is the one from before the batch.
\<close>

theorem in_batch_exact_duplicate:
  assumes "normalize_input ev (embedder st) payload = Inr qs"
    and "ingest ev st payload = Inr (out, st')"
    and "i < j" and "j < length qs"
    and "exact_hash (fingerprints (qs ! i)) = exact_hash (fingerprints (qs ! j))"
  shows "out ! j = \<lparr>question = qs ! j, status = ''exact-duplicate'',
                    matched_qid = (if status (out ! i) = ''exact-duplicate'' then matched_qid (out ! i)
                                   else Some (qid (qs ! i))),
                    score = Some 1\<rparr>
         \<and> (\<exists>done s. ingest_loop ev st (take j qs) [] = Inr (done, s)
               \<and> ingest_loop ev st (take (Suc j) qs) [] = Inr (done @ [out ! j], s)
               \<and> stem_index s = stem_index st)"
proof -
  from assms(2) obtain qs' st1 where
    n: "normalize_input ev (embedder st) payload = Inr qs'"
    and l': "ingest_loop ev st qs' [] = Inr (out, st1)"
    by (rule ingest_split)
  have l: "ingest_loop ev st qs [] = Inr (out, st1)" using n l' assms(1) by simp
  have q: "list_all (\<lambda>q. qid q \<noteq> []) qs" using assms(1) by (rule normalize_input_qid)
  have r: "out ! j = \<lparr>question = qs ! j, status = ''exact-duplicate'',
                    matched_qid = (if status (out ! i) = ''exact-duplicate'' then matched_qid (out ! i)
                                   else Some (qid (qs ! i))),
                    score = Some 1\<rparr>"
    using l q assms(3,4,5) by (rule ingest_loop_shared_hash)
  then have "status (out ! j) = ''exact-duplicate''" by simp
  then obtain dn s where
    p: "ingest_loop ev st (take j qs) [] = Inr (dn, s)"
       "ingest_loop ev st (take (Suc j) qs) [] = Inr (dn @ [out ! j], s)"
    using ingest_loop_duplicate_not_stored [OF l assms(4)] by blast
  have "stem_index s = stem_index st" using p(1) by (rule ingest_loop_stem_index)
  then show ?thesis using r p by blast
qed

theorem in_batch_exact_duplicate_witness:
  "normalize_input test_env (embedder (new_engine None (Some unit_embedder)))
       (questions_only [row_a, row_b]) = Inr [doc_a, doc_b]
   \<and> ingest test_env (new_engine None (Some unit_embedder)) (questions_only [row_a, row_b])
       = Inr ([\<lparr>question = doc_a, status = ''new'', matched_qid = None, score = None\<rparr>,
               exact_duplicate_of doc_b ''a''], bank_a)
   \<and> (0::nat) < 1 \<and> 1 < length [doc_a, doc_b]
   \<and> exact_hash (fingerprints ([doc_a, doc_b] ! 0)) = exact_hash (fingerprints ([doc_a, doc_b] ! 1))
   \<and> exact_duplicate_of doc_b ''a''
       = \<lparr>question = doc_b, status = ''exact-duplicate'', matched_qid = Some (qid doc_a), score = Some 1\<rparr>
   \<and> (\<exists>done s. ingest_loop test_env (new_engine None (Some unit_embedder)) (take 1 [doc_a, doc_b]) []
                 = Inr (done, s)
         \<and> ingest_loop test_env (new_engine None (Some unit_embedder)) (take (Suc 1) [doc_a, doc_b]) []
                 = Inr (done @ [exact_duplicate_of doc_b ''a''], s)
         \<and> stem_index s = stem_index (new_engine None (Some unit_embedder)))"
proof -
  have 1: "normalize_input test_env (embedder (new_engine None (Some unit_embedder)))
       (questions_only [row_a, row_b]) = Inr [doc_a, doc_b]"
    by (simp add: normalize_input_def questions_only_def normalize_rows_eval new_engine_def test_env_def)
  have 3: "(0::nat) < 1" by simp
  have 4: "1 < length [doc_a, doc_b]" by simp
  have 5: "exact_hash (fingerprints ([doc_a, doc_b] ! 0)) = exact_hash (fingerprints ([doc_a, doc_b] ! 1))"
    by (simp add: doc_a_def doc_b_def plain_doc_def)
  show ?thesis
    using in_batch_exact_duplicate [OF 1 ingest_ab 3 4 5] 1 ingest_ab 5
    by (simp add: exact_duplicate_of_def doc_a_def doc_b_def plain_doc_def)
qed

section \<open>The embedder\<close>

lemma encode_loop_returns:
  "0 < dm \<Longrightarrow> \<exists>acc. encode_loop dm ts out = Inr acc \<and> length acc = length out"
proof (induction ts arbitrary: out)
  case Nil
  then show ?case by simp
next
  case (Cons t ts)
  define out' where "out' = out[int16 (take 8 (stable_hash t)) mod dm :=
      out ! (int16 (take 8 (stable_hash t)) mod dm)
        + (if int16 (take 8 (drop 8 (stable_hash t))) mod 2 = 0 then 1 else - 1)]"
  have "encode_loop dm (t # ts) out = encode_loop dm ts out'"
    using Cons.prems by (simp add: Let_def out'_def)
  moreover have "length out' = length out" by (simp add: out'_def)
  ultimately show ?case using Cons.IH [OF Cons.prems, of out'] by simp
qed

lemma sum_squares_zero_iff:
  "sum_list (map (\<lambda>x. x * x) v) = 0 \<longleftrightarrow> v = replicate (length v) (0::real)"
proof (induction v)
  case Nil
  then show ?case by simp
next
  case (Cons a v)
  have "0 \<le> sum_list (map (\<lambda>x. x * x) v)"
    by (rule sum_list_nonneg) auto
  moreover have "0 \<le> a * a" by simp
  ultimately have "a * a + sum_list (map (\<lambda>x. x * x) v) = 0
      \<longleftrightarrow> a * a = 0 \<and> sum_list (map (\<lambda>x. x * x) v) = 0"
    by (simp add: add_nonneg_eq_0_iff)
  then show ?case using Cons.IH by simp
qed

lemma l2_norm_zero_iff: "l2_norm v = 0 \<longleftrightarrow> v = replicate (length v) 0"
  by (simp add: l2_norm_def sum_squares_zero_iff)

lemma sum_list_divide:
  "sum_list (map (\<lambda>x. f x / c) v) = sum_list (map f v) / (c::real)"
  by (induction v) (simp_all add: add_divide_distrib)

lemma l2_norm_normalised:
  assumes "l2_norm v \<noteq> 0"
  shows "l2_norm (map (\<lambda>x. x / l2_norm v) v) = 1"
proof -
  define S where "S = sum_list (map (\<lambda>x. x * x) v)"
  have nonneg: "0 \<le> S" unfolding S_def by (rule sum_list_nonneg) auto
  have n: "l2_norm v = sqrt S" by (simp add: l2_norm_def S_def)
  have pos: "0 < S" using assms nonneg n by (cases "S = 0") auto
  have "sum_list (map (\<lambda>x. x * x) (map (\<lambda>x. x / sqrt S) v))
        = sum_list (map (\<lambda>x. (x * x) / S) v)"
    using nonneg by (simp add: comp_def)
  also have "\<dots> = S / S"
    unfolding S_def by (rule sum_list_divide)
  finally have "sum_list (map (\<lambda>x. x * x) (map (\<lambda>x. x / sqrt S) v)) = 1"
    using pos by simp
  then show ?thesis by (simp add: l2_norm_def n [unfolded l2_norm_def])
qed

text \<open>
  Claim C5, as stated, fails: the tokens \<^verbatim>\<open>f\<close> and \<^verbatim>\<open>cell\<close> fall into the same bucket of
  the default dimension 512 with opposite signs, so the accumulated vector of the text
  \<^verbatim>\<open>f cell\<close> is zero, the guard \<^verbatim>\<open>if norm == 0\<close> returns it as it is, and its norm is 0.
\<close>

lemma replicate_update_same: "(replicate n x)[i := x] = replicate n x"
  by (cases "i < n") (auto simp: list_eq_iff_nth_eq nth_list_update)

lemma tokenize_f_cell: "tokenize ''f cell'' = [''f'', ''cell'']"
  by (simp add: tokenize_def text_eval)

lemma bucket_f: "int16 (take 8 (stable_hash ''f'')) mod 512 = 52"
    "int16 (take 8 (drop 8 (stable_hash ''f''))) mod 2 = 1"
  by (simp_all add: text_eval int16_def hexval_def)

lemma bucket_cell: "int16 (take 8 (stable_hash ''cell'')) mod 512 = 52"
    "int16 (take 8 (drop 8 (stable_hash ''cell''))) mod 2 = 0"
  by (simp_all add: text_eval int16_def hexval_def)

theorem cancelling_tokens_give_zero_vector:
  "tokenize ''f cell'' = [''f'', ''cell'']
   \<and> encode 512 ''f cell'' = Inr (replicate 512 0)
   \<and> l2_norm (replicate 512 0) = 0"
proof -
  have "encode_loop 512 [''f'', ''cell''] (replicate 512 0) = Inr (replicate 512 0)"
    by (simp add: bucket_f bucket_cell Let_def replicate_update_same)
  moreover have "l2_norm (replicate 512 0) = 0"
    by (simp add: l2_norm_zero_iff)
  ultimately show ?thesis
    by (simp add: encode_def tokenize_f_cell Let_def)
qed

text \<open>
  Claim C5, amended. For every string and every dimension greater than 0, \<open>encode\<close> returns
  a vector of that dimension. It is the all-zero vector when the accumulated vector is zero
  (which it is when the string has no token, and also when the signs of its tokens cancel
  in every bucket); otherwise its L2 norm is 1 (reals stand for floats).
\<close>

theorem embedding_unit_norm_or_zero:
  assumes "0 < dm"
  shows "\<exists>acc v. encode_loop dm (tokenize s) (replicate dm 0) = Inr acc
           \<and> encode dm s = Inr v \<and> length v = dm
           \<and> (if acc = replicate dm 0 then v = replicate dm 0 else l2_norm v = 1)
           \<and> (tokenize s = [] \<longrightarrow> acc = replicate dm 0)"
proof -
  obtain acc where acc: "encode_loop dm (tokenize s) (replicate dm 0) = Inr acc"
    and len: "length acc = dm"
    using encode_loop_returns [OF assms, of "tokenize s" "replicate dm 0"] by auto
  have z: "l2_norm acc = 0 \<longleftrightarrow> acc = replicate dm 0"
    using len by (simp add: l2_norm_zero_iff)
  have e: "tokenize s = [] \<Longrightarrow> acc = replicate dm 0" using acc by simp
  show ?thesis
  proof (cases "acc = replicate dm 0")
    case True
    then have "encode dm s = Inr (replicate dm 0)"
      using acc z by (simp add: encode_def Let_def)
    then show ?thesis using acc True by simp
  next
    case False
    then have nz: "l2_norm acc \<noteq> 0" and t: "tokenize s \<noteq> []" using z e by auto
    then have "encode dm s = Inr (map (\<lambda>x. x / l2_norm acc) acc)"
      using acc by (simp add: encode_def Let_def)
    then show ?thesis
      using acc False len t l2_norm_normalised [OF nz] by simp
  qed
qed

lemma bucket_x: "int16 (take 8 (stable_hash ''x'')) mod 2 = 1"
    "int16 (take 8 (drop 8 (stable_hash ''x''))) mod 2 = 1"
  by (simp_all add: text_eval int16_def hexval_def)

theorem embedding_unit_norm_or_zero_witness:
  "(0::nat) < 2
   \<and> encode_loop 2 (tokenize ''x'') (replicate 2 0) = Inr [0, - 1]
   \<and> encode 2 ''x'' = Inr [0, - 1] \<and> l2_norm [0, - 1] = 1"
proof -
  have t: "tokenize ''x'' = [''x'']" by (simp add: tokenize_def text_eval)
  have r: "replicate 2 (0::real) = [0, 0]" by (simp add: numeral_2_eq_2)
  have a: "encode_loop 2 (tokenize ''x'') (replicate 2 0) = Inr [0, - 1]"
    unfolding t r by (simp add: bucket_x Let_def)
  have n: "[0, - 1] \<noteq> replicate 2 (0::real)" by (simp add: r)
  have e: "encode 2 ''x'' = Inr [0, - 1]"
    using a by (simp add: encode_def t l2_norm_def Let_def)
  show ?thesis
    using embedding_unit_norm_or_zero [of 2 "''x''"] a n e by auto
qed

section \<open>Fusion weights\<close>

text \<open>
  Claim C9. When the query has no image vector and the configured image weight is
  positive, the sparse and dense weights that \<open>fuse_hybrid_scores\<close> scores with add up to the
  sum of the three configured weights, and the image weight it scores with is 0 (reals
  stand for floats).
\<close>

theorem fusion_weight_conservation:
  assumes "\<not> has_vector (q_image_vector qry)"
    and "image_weight cfg > 0"
    and "effective_weights cfg (has_vector (q_image_vector qry)) = (sparse_w, dense_w, image_w)"
  shows "sparse_w + dense_w = sparse_weight cfg + dense_weight cfg + image_weight cfg \<and> image_w = 0"
  using assms by (auto simp: effective_weights_def Let_def)

theorem fusion_weight_conservation_witness:
  "\<not> has_vector (q_image_vector \<lparr>q_text = Some ''derivative'', q_image_vector = None,
         question_id = None, filters = [], top_k = None, top_m = None, top_n = None\<rparr>)
   \<and> image_weight default_config > 0
   \<and> effective_weights default_config False = (1 / 2, 1 / 2, 0)
   \<and> (1 / 2 + 1 / 2 :: real) = sparse_weight default_config + dense_weight default_config
         + image_weight default_config"
proof -
  let ?q = "\<lparr>q_text = Some ''derivative'', q_image_vector = None,
         question_id = None, filters = [], top_k = None, top_m = None, top_n = None\<rparr>"
  have 1: "\<not> has_vector (q_image_vector ?q)" by (simp add: has_vector_def)
  have 2: "image_weight default_config > 0" by (simp add: default_config_def)
  have 3: "effective_weights default_config (has_vector (q_image_vector ?q)) = (1 / 2, 1 / 2, 0)"
    by (simp add: effective_weights_def default_config_def has_vector_def)
  show ?thesis
    using fusion_weight_conservation [OF 1 2 3] 1 2 3 by (simp add: has_vector_def)
qed

end
